theory Spec2Isabelle
  imports Complex_Main "HOL-Library.Word"
begin

section \<open>Strings and values of the host language\<close>

text \<open>
  A string of the program is a sequence of 16-bit code units. \<open>js\<close> writes a literal.
\<close>

type_synonym jschar = "16 word"
type_synonym jsstring = "jschar list"
type_synonym byte = "8 word"

definition js :: "string \<Rightarrow> jsstring" where
  "js cs = map of_char cs"

definition newline :: jschar where
  "newline = 0x0A"

text \<open>
  \<open>String.prototype.trim\<close> removes white space and line terminators from both ends:
  TAB, LF, VT, FF, CR, SP, NBSP, U+1680, U+2000 to U+200A, U+2028, U+2029, U+202F,
  U+205F, U+3000 and U+FEFF.
\<close>

definition isWhiteSpace :: "jschar \<Rightarrow> bool" where
  "isWhiteSpace c \<longleftrightarrow>
     c = 0x09 \<or> c = 0x0A \<or> c = 0x0B \<or> c = 0x0C \<or> c = 0x0D \<or> c = 0x20 \<or> c = 0xA0 \<or>
     c = 0x1680 \<or> (0x2000 \<le> c \<and> c \<le> 0x200A) \<or> c = 0x2028 \<or> c = 0x2029 \<or>
     c = 0x202F \<or> c = 0x205F \<or> c = 0x3000 \<or> c = 0xFEFF"

definition trim :: "jsstring \<Rightarrow> jsstring" where
  "trim s = rev (dropWhile isWhiteSpace (rev (dropWhile isWhiteSpace s)))"

text \<open>\<open>indexOf\<close> returns \<open>None\<close> where the program gets \<open>-1\<close>.\<close>

fun indexOf :: "jsstring \<Rightarrow> jschar \<Rightarrow> nat option" where
  "indexOf [] c = None"
| "indexOf (x # xs) c = (if x = c then Some 0 else map_option Suc (indexOf xs c))"

definition slice :: "jsstring \<Rightarrow> nat \<Rightarrow> nat \<Rightarrow> jsstring" where
  "slice s a b = take (b - a) (drop a s)"

definition sliceFrom :: "jsstring \<Rightarrow> nat \<Rightarrow> jsstring" where
  "sliceFrom s a = drop a s"

text \<open>
  The values \<open>JSON.parse\<close> produces. A number carries the value of its double (an
  infinite one counts as any non-zero value: only its truthiness is ever read). A
  value that may be \<open>undefined\<close> is a \<open>json option\<close>, \<open>None\<close> for \<open>undefined\<close>.
\<close>

datatype json =
    JNull
  | JBool bool
  | JNum rat
  | JStr jsstring
  | JArr "json list"
  | JObj "(jsstring \<times> json) list"

fun truthy :: "json option \<Rightarrow> bool" where
  "truthy None = False"
| "truthy (Some JNull) = False"
| "truthy (Some (JBool b)) = b"
| "truthy (Some (JNum n)) = (n \<noteq> 0)"
| "truthy (Some (JStr s)) = (s \<noteq> [])"
| "truthy (Some (JArr xs)) = True"
| "truthy (Some (JObj kvs)) = True"

text \<open>\<open>a || b\<close>\<close>

definition js_or :: "json option \<Rightarrow> json option \<Rightarrow> json option" where
  "js_or a b = (if truthy a then a else b)"

text \<open>
  \<open>v.k\<close> on a value that is neither \<open>null\<close> nor \<open>undefined\<close>, for the keys the program
  reads (none of them is a property of a prototype): an object answers with its own
  property, every other value with \<open>undefined\<close>.
\<close>

fun getProp :: "json \<Rightarrow> jsstring \<Rightarrow> json option" where
  "getProp (JObj kvs) k = map_of kvs k"
| "getProp v k = None"

text \<open>\<open>v?.k\<close>\<close>

fun optChain :: "json option \<Rightarrow> jsstring \<Rightarrow> json option" where
  "optChain None k = None"
| "optChain (Some JNull) k = None"
| "optChain (Some v) k = getProp v k"

text \<open>
  The errors the program sees: the \<open>name\<close> of an error tells an abort from the rest.
  \<open>Error m\<close> is \<open>new Error(m)\<close>; \<open>TypeError\<close> is what reading a property of \<open>null\<close>
  throws; \<open>AbortError\<close> is what an aborted request rejects with; \<open>TransportError m\<close>
  is any other rejection of the transport.
\<close>

datatype jserror = AbortError | TypeError | Error jsstring | TransportError jsstring

fun isAbortError :: "jserror \<Rightarrow> bool" where
  "isAbortError AbortError = True"
| "isAbortError e = False"

text \<open>
  How a call ends: it returns, it throws (the state is the one reached when the
  error was thrown), or it has handed a value that is not a string to a parameter the
  source declares \<open>string\<close> (\<open>IllTyped\<close>: what the program does with such a value is
  outside this model).
\<close>

datatype 'a completion = Normal 'a | Throws jserror 'a | IllTyped

fun andThen :: "'a completion \<Rightarrow> ('a \<Rightarrow> 'a completion) \<Rightarrow> 'a completion" where
  "andThen (Normal a) f = f a"
| "andThen (Throws e a) f = Throws e a"
| "andThen IllTyped f = IllTyped"

section \<open>Data model\<close>

datatype ToolInvocationState = Streaming | Call | Result

datatype Status = Ready | Submitted | StreamingStatus

datatype Role = User | Assistant

record ToolInvocation =
  toolCallId :: jsstring
  toolName :: "json option"
  state :: ToolInvocationState
  args :: "json option"
  argsText :: "jsstring option"
  result :: "json option"

text \<open>
  Modelled from the spec: the declaration of \<open>Message\<close> and of its parts
  (components/message) is not among the sources. A message has an id, a role, a
  content and optional parts; a part is a tool invocation or of another kind, held
  here by its \<open>type\<close> tag.
\<close>

datatype Part = ToolInvocationPart ToolInvocation | OtherPart jsstring

record Message =
  idM :: jsstring
  role :: Role
  content :: "jsstring option"
  parts :: "Part list option"

record Snapshot =
  messages :: "Message list"
  input :: jsstring
  status :: Status
  isInitializing :: bool
  streamUrl :: "jsstring option"
  sandboxId :: "jsstring option"

text \<open>\<open>Partial<Snapshot>\<close>: a field is \<open>None\<close> when the key is absent.\<close>

record SnapshotPatch =
  p_messages :: "Message list option"
  p_input :: "jsstring option"
  p_status :: "Status option"
  p_isInitializing :: "bool option"
  p_streamUrl :: "jsstring option option"
  p_sandboxId :: "jsstring option option"

definition noPatch :: SnapshotPatch where
  "noPatch = \<lparr>p_messages = None, p_input = None, p_status = None,
     p_isInitializing = None, p_streamUrl = None, p_sandboxId = None\<rparr>"

text \<open>\<open>{ ...snapshot, ...partial }\<close>\<close>

definition merge :: "Snapshot \<Rightarrow> SnapshotPatch \<Rightarrow> Snapshot" where
  "merge sn p =
     \<lparr>messages = (case p_messages p of None \<Rightarrow> messages sn | Some v \<Rightarrow> v),
      input = (case p_input p of None \<Rightarrow> input sn | Some v \<Rightarrow> v),
      status = (case p_status p of None \<Rightarrow> status sn | Some v \<Rightarrow> v),
      isInitializing = (case p_isInitializing p of None \<Rightarrow> isInitializing sn | Some v \<Rightarrow> v),
      streamUrl = (case p_streamUrl p of None \<Rightarrow> streamUrl sn | Some v \<Rightarrow> v),
      sandboxId = (case p_sandboxId p of None \<Rightarrow> sandboxId sn | Some v \<Rightarrow> v)\<rparr>"

text \<open>
  The fields of \<open>RealtimeSession\<close>, and what the session exchanges with its
  surroundings:
  \<^item> \<open>listeners\<close> in the order of their registration, and \<open>notified\<close>, the calls
    \<open>emit\<close> has made to them, oldest first;
  \<^item> \<open>onError\<close> is the caller's callback, \<open>None\<close> when none was given: called with an
    error it returns (\<open>None\<close>) or throws an error of its own; \<open>reported\<close> holds the
    errors it was called with;
  \<^item> \<open>abortController\<close> is the number of the controller in the field, \<open>controllers\<close>
    how many were made, \<open>aborted\<close> the ones whose \<open>abort\<close> was called;
  \<^item> \<open>requests\<close> holds what was posted: the messages, the timestamp and the
    \<open>sandboxId\<close> of each payload (the caller's extra fields are constant);
  \<^item> \<open>dateNow k\<close> and \<open>mathRandom k\<close> are the texts a template literal makes of the
    \<open>k\<close>-th reading of \<open>Date.now()\<close> and of \<open>Math.random()\<close>, and \<open>nowReads\<close>,
    \<open>randomReads\<close> count the readings made.
  A listener is taken to return, and neither a listener nor the error callback calls
  back into the session.
\<close>

record RealtimeSession =
  snapshot :: Snapshot
  listeners :: "nat list"
  notified :: "nat list"
  onError :: "(jserror \<Rightarrow> jserror option) option"
  reported :: "jserror list"
  abortController :: "nat option"
  controllers :: nat
  aborted :: "nat list"
  currentTextId :: "jsstring option"
  toolMessageMap :: "jsstring \<rightharpoonup> jsstring"
  activeScreenshotToolId :: "jsstring option"
  requests :: "(Message list \<times> jsstring \<times> jsstring option) list"
  dateNow :: "nat \<Rightarrow> jsstring"
  nowReads :: nat
  mathRandom :: "nat \<Rightarrow> jsstring"
  randomReads :: nat

text \<open>\<open>new RealtimeSession(options)\<close>, in a world that answers the clock and the random
  generator with \<open>dn\<close> and \<open>mr\<close>.\<close>

definition newSession ::
  "(jserror \<Rightarrow> jserror option) option \<Rightarrow> (nat \<Rightarrow> jsstring) \<Rightarrow> (nat \<Rightarrow> jsstring) \<Rightarrow>
   RealtimeSession" where
  "newSession cb dn mr =
     \<lparr>snapshot = \<lparr>messages = [], input = [], status = Ready, isInitializing = True,
        streamUrl = None, sandboxId = None\<rparr>,
      listeners = [], notified = [], onError = cb, reported = [],
      abortController = None, controllers = 0, aborted = [],
      currentTextId = None, toolMessageMap = Map.empty, activeScreenshotToolId = None,
      requests = [], dateNow = dn, nowReads = 0, mathRandom = mr, randomReads = 0\<rparr>"

text \<open>
  The platform functions the session calls, taken as parameters: \<open>JSON.parse\<close>
  (\<open>None\<close> when it throws) and \<open>JSON.stringify(v, null, 2)\<close>.
\<close>

record platform =
  JSON_parse :: "jsstring \<Rightarrow> json option"
  JSON_stringify :: "json \<Rightarrow> jsstring"

section \<open>The session store\<close>

definition emit :: "RealtimeSession \<Rightarrow> RealtimeSession" where
  "emit s = s\<lparr>notified := notified s @ listeners s\<rparr>"

definition updateSnapshot :: "SnapshotPatch \<Rightarrow> RealtimeSession \<Rightarrow> RealtimeSession" where
  "updateSnapshot p s = emit (s\<lparr>snapshot := merge (snapshot s) p\<rparr>)"

text \<open>
  \<open>if (this.onError) this.onError(error)\<close>: when the callback throws, the call ends
  there, with the callback's error.
\<close>

definition callOnError :: "jserror \<Rightarrow> RealtimeSession \<Rightarrow> RealtimeSession completion" where
  "callOnError e s =
     (case onError s of
        None \<Rightarrow> Normal s
      | Some callback \<Rightarrow>
          (case callback e of
             None \<Rightarrow> Normal (s\<lparr>reported := reported s @ [e]\<rparr>)
           | Some thrown \<Rightarrow> Throws thrown (s\<lparr>reported := reported s @ [e]\<rparr>)))"

definition replaceMessages :: "Message list \<Rightarrow> RealtimeSession \<Rightarrow> RealtimeSession" where
  "replaceMessages ms s = updateSnapshot (noPatch\<lparr>p_messages := Some ms\<rparr>) s"

definition subscribe :: "nat \<Rightarrow> RealtimeSession \<Rightarrow> RealtimeSession" where
  "subscribe l s = (if l \<in> set (listeners s) then s else s\<lparr>listeners := listeners s @ [l]\<rparr>)"

definition unsubscribe :: "nat \<Rightarrow> RealtimeSession \<Rightarrow> RealtimeSession" where
  "unsubscribe l s = s\<lparr>listeners := removeAll l (listeners s)\<rparr>"

definition getSnapshot :: "RealtimeSession \<Rightarrow> Snapshot" where
  "getSnapshot s = snapshot s"

definition setInput :: "jsstring \<Rightarrow> RealtimeSession \<Rightarrow> RealtimeSession" where
  "setInput v s = updateSnapshot (noPatch\<lparr>p_input := Some v\<rparr>) s"

definition setInitializing :: "bool \<Rightarrow> RealtimeSession \<Rightarrow> RealtimeSession" where
  "setInitializing flag s = updateSnapshot (noPatch\<lparr>p_isInitializing := Some flag\<rparr>) s"

definition updateDesktop :: "jsstring option \<Rightarrow> jsstring option \<Rightarrow> RealtimeSession \<Rightarrow> RealtimeSession" where
  "updateDesktop url sb s =
     updateSnapshot (noPatch\<lparr>p_streamUrl := Some url, p_sandboxId := Some sb\<rparr>) s"

section \<open>Transcript mutation\<close>

text \<open>\<open>!id\<close> for a field that holds a string or \<open>null\<close> (or \<open>undefined\<close>).\<close>

fun unset :: "jsstring option \<Rightarrow> bool" where
  "unset None = True"
| "unset (Some i) = (i = [])"

definition handleTextDelta :: "jsstring \<Rightarrow> RealtimeSession \<Rightarrow> RealtimeSession" where
  "handleTextDelta delta s =
     (if unset (currentTextId s) then
        let assistantMessage =
              \<lparr>idM = js ''assistant-'' @ dateNow s (nowReads s) @ js ''-'' @
                   mathRandom s (randomReads s),
               role = Assistant, content = Some delta, parts = None\<rparr>;
            s1 = s\<lparr>nowReads := Suc (nowReads s), randomReads := Suc (randomReads s),
                   currentTextId := Some (idM assistantMessage)\<rparr>
        in replaceMessages (messages (snapshot s1) @ [assistantMessage]) s1
      else
        let updatedMessages =
              map (\<lambda>message.
                     if Some (idM message) \<noteq> currentTextId s then message
                     else message\<lparr>content :=
                            Some ((case content message of None \<Rightarrow> [] | Some c \<Rightarrow> c) @ delta)\<rparr>)
                  (messages (snapshot s))
        in replaceMessages updatedMessages s)"

text \<open>
  The \<open>updates\<close> of \<open>handleToolEvent\<close>, with the four keys its callers pass: a field is
  \<open>None\<close> when the key is absent, \<open>Some None\<close> when it is there and \<open>undefined\<close>.
\<close>

record ToolUpdates =
  u_toolName :: "json option option"
  u_args :: "json option option"
  u_argsText :: "jsstring option option"
  u_result :: "json option option"

text \<open>\<open>updates.k\<close>\<close>

fun readKey :: "'a option option \<Rightarrow> 'a option" where
  "readKey None = None"
| "readKey (Some v) = v"

text \<open>\<open>{ ...part.toolInvocation, ...updates, state }\<close>\<close>

definition mergeInvocation :: "ToolInvocation \<Rightarrow> ToolUpdates \<Rightarrow> ToolInvocationState \<Rightarrow> ToolInvocation" where
  "mergeInvocation ti u st =
     \<lparr>toolCallId = toolCallId ti,
      toolName = (case u_toolName u of None \<Rightarrow> toolName ti | Some v \<Rightarrow> v),
      state = st,
      args = (case u_args u of None \<Rightarrow> args ti | Some v \<Rightarrow> v),
      argsText = (case u_argsText u of None \<Rightarrow> argsText ti | Some v \<Rightarrow> v),
      result = (case u_result u of None \<Rightarrow> result ti | Some v \<Rightarrow> v)\<rparr>"

fun updatePart :: "jsstring \<Rightarrow> ToolInvocationState \<Rightarrow> ToolUpdates \<Rightarrow> Part \<Rightarrow> Part" where
  "updatePart tc st u (OtherPart t) = OtherPart t"
| "updatePart tc st u (ToolInvocationPart ti) =
     (if toolCallId ti \<noteq> tc then ToolInvocationPart ti
      else ToolInvocationPart (mergeInvocation ti u st))"

definition updateMessage :: "jsstring \<Rightarrow> jsstring \<Rightarrow> ToolInvocationState \<Rightarrow> ToolUpdates \<Rightarrow> Message \<Rightarrow> Message" where
  "updateMessage messageId tc st u message =
     (case parts message of
        None \<Rightarrow> message
      | Some ps \<Rightarrow>
          if idM message \<noteq> messageId then message
          else message\<lparr>parts := Some (map (updatePart tc st u) ps)\<rparr>)"

definition handleToolEvent :: "jsstring \<Rightarrow> ToolInvocationState \<Rightarrow> ToolUpdates \<Rightarrow> RealtimeSession \<Rightarrow> RealtimeSession" where
  "handleToolEvent tc st u s =
     (if unset (toolMessageMap s tc) then
        let messageId = js ''tool-'' @ tc @ js ''-'' @ dateNow s (nowReads s);
            invocation = ToolInvocationPart
              \<lparr>toolCallId = tc, toolName = readKey (u_toolName u), state = st,
               args = readKey (u_args u), argsText = readKey (u_argsText u),
               result = readKey (u_result u)\<rparr>;
            toolMessage = \<lparr>idM = messageId, role = Assistant, content = Some [],
               parts = Some [invocation]\<rparr>;
            s1 = s\<lparr>nowReads := Suc (nowReads s),
                   toolMessageMap := (toolMessageMap s)(tc \<mapsto> messageId),
                   currentTextId := None\<rparr>
        in replaceMessages (messages (snapshot s1) @ [toolMessage]) s1
      else
        let messageId = (case toolMessageMap s tc of None \<Rightarrow> [] | Some i \<Rightarrow> i)
        in replaceMessages (map (updateMessage messageId tc st u) (messages (snapshot s))) s)"

section \<open>The event dispatcher\<close>

definition processLine :: "platform \<Rightarrow> jsstring \<Rightarrow> RealtimeSession \<Rightarrow> RealtimeSession completion" where
  "processLine P rawLine s =
     (let line = trim rawLine in
      if line = [] then Normal s
      else
        case JSON_parse P line of
          None \<Rightarrow> Normal s
        | Some JNull \<Rightarrow> Throws TypeError s
        | Some event \<Rightarrow>
            let ty = getProp event (js ''type'') in
            if ty = Some (JStr (js ''text-delta'')) then
              let delta = js_or (js_or (getProp event (js ''delta'')) (getProp event (js ''textDelta'')))
                            (Some (JStr []))
              in if \<not> truthy delta then Normal s
                 else (case delta of
                         Some (JStr d) \<Rightarrow> Normal (handleTextDelta d s)
                       | _ \<Rightarrow> IllTyped)
            else if ty = Some (JStr (js ''tool-input-available'')) then
              let tcv = getProp event (js ''toolCallId'') in
              if \<not> truthy tcv then Normal s
              else (case tcv of
                      Some (JStr tc) \<Rightarrow>
                        let inp = getProp event (js ''input'');
                            s1 = handleToolEvent tc Call
                                   \<lparr>u_toolName = Some (getProp event (js ''toolName'')),
                                    u_args = Some inp,
                                    u_argsText = Some (if truthy inp
                                       then map_option (JSON_stringify P) inp else None),
                                    u_result = None\<rparr> s
                        in Normal (if optChain inp (js ''action'') = Some (JStr (js ''screenshot''))
                                   then s1\<lparr>activeScreenshotToolId := Some tc\<rparr> else s1)
                    | _ \<Rightarrow> IllTyped)
            else if ty = Some (JStr (js ''tool-output-available'')) then
              let tcv = getProp event (js ''toolCallId'') in
              if \<not> truthy tcv then Normal s
              else (case tcv of
                      Some (JStr tc) \<Rightarrow>
                        let out = getProp event (js ''output'');
                            s1 = handleToolEvent tc Result
                                   \<lparr>u_toolName = None, u_args = None, u_argsText = None,
                                    u_result = Some out\<rparr> s
                        in Normal (if optChain out (js ''type'') = Some (JStr (js ''image''))
                                   then s1\<lparr>activeScreenshotToolId := Some tc\<rparr> else s1)
                    | _ \<Rightarrow> IllTyped)
            else if ty = Some (JStr (js ''screenshot-update'')) then
              (case activeScreenshotToolId s of
                 None \<Rightarrow> Normal s
               | Some active \<Rightarrow>
                   if active = [] then Normal s
                   else
                     let shot = getProp event (js ''screenshot'') in
                     if \<not> truthy shot then Normal s
                     else (case shot of
                             None \<Rightarrow> Normal s
                           | Some data \<Rightarrow>
                               Normal (handleToolEvent active Result
                                 \<lparr>u_toolName = None, u_args = None, u_argsText = None,
                                  u_result = Some (Some (JObj [(js ''type'', JStr (js ''image'')),
                                                                (js ''data'', data)]))\<rparr> s)))
            else if ty = Some (JStr (js ''finish'')) then
              Normal (updateSnapshot (noPatch\<lparr>p_status := Some Ready\<rparr>) (s\<lparr>currentTextId := None\<rparr>))
            else if ty = Some (JStr (js ''error'')) then
              let txt = js_or (getProp event (js ''errorText'')) (Some (JStr (js ''Streaming error'')))
              in (case txt of
                    Some (JStr m) \<Rightarrow>
                      andThen (callOnError (Error m) s)
                        (\<lambda>s1. Normal (updateSnapshot (noPatch\<lparr>p_status := Some Ready\<rparr>) s1))
                  | _ \<Rightarrow> IllTyped)
            else Normal s)"

section \<open>The line framer\<close>

text \<open>
  The inner loop of \<open>sendMessage\<close>: while the buffer holds a newline, the text before
  it is handed over and the buffer keeps what follows. The loop is written over the
  method it calls, \<open>h\<close>, which is \<open>processLine\<close> in the session.
\<close>

function drainLines ::
  "(jsstring \<Rightarrow> 's \<Rightarrow> 's completion) \<Rightarrow> jsstring \<Rightarrow> 's \<Rightarrow> ('s \<times> jsstring) completion" where
  "drainLines h buffer s =
     (case indexOf buffer newline of
        None \<Rightarrow> Normal (s, buffer)
      | Some newlineIndex \<Rightarrow>
          (case h (slice buffer 0 newlineIndex) s of
             Normal s1 \<Rightarrow> drainLines h (sliceFrom buffer (newlineIndex + 1)) s1
           | Throws e s1 \<Rightarrow> Throws e (s1, sliceFrom buffer (newlineIndex + 1))
           | IllTyped \<Rightarrow> IllTyped))"
  by pat_completeness auto
termination
proof (relation "measure (\<lambda>(h, buffer, s). length buffer)")
  fix h :: "jsstring \<Rightarrow> 's \<Rightarrow> 's completion" and buffer :: jsstring and s s1 :: 's and i :: nat
  assume found: "indexOf buffer newline = Some i"
  have "indexOf b c = Some k \<Longrightarrow> k < length b" for b c k
    by (induction b arbitrary: k) (auto split: if_splits)
  from this [OF found]
  show "((h, sliceFrom buffer (i + 1), s1), (h, buffer, s)) \<in> measure (\<lambda>(h, buffer, s). length buffer)"
    by (simp add: sliceFrom_def)
qed simp

declare drainLines.simps [simp del]

text \<open>
  \<open>TextDecoder\<close> is the platform's: a decoder is taken as its handler, which reads one
  byte in a state and gives the next state and the code units it emits.
  \<open>decode step value d\<close> is \<open>decoder.decode(value, { stream: true })\<close> in state \<open>d\<close>.
\<close>

fun decode :: "('d \<Rightarrow> byte \<Rightarrow> 'd \<times> jsstring) \<Rightarrow> byte list \<Rightarrow> 'd \<Rightarrow> 'd \<times> jsstring" where
  "decode step [] d = (d, [])"
| "decode step (b # bs) d =
     (case step d b of
        (d1, t1) \<Rightarrow> (case decode step bs d1 of (d2, t2) \<Rightarrow> (d2, t1 @ t2)))"

text \<open>
  What the reader gives: the chunks in their order, then the end of the stream
  (\<open>done\<close>) or a rejected read.
\<close>

datatype streamEnd = Done | ReadRejects jserror

fun readLoop ::
  "(jsstring \<Rightarrow> 's \<Rightarrow> 's completion) \<Rightarrow> ('d \<Rightarrow> byte \<Rightarrow> 'd \<times> jsstring) \<Rightarrow>
   byte list list \<Rightarrow> streamEnd \<Rightarrow> 'd \<Rightarrow> jsstring \<Rightarrow> 's \<Rightarrow> 's completion" where
  "readLoop h step [] fin d buffer s =
     (case fin of
        ReadRejects e \<Rightarrow> Throws e s
      | Done \<Rightarrow> if trim buffer \<noteq> [] then h buffer s else Normal s)"
| "readLoop h step (value # later) fin d buffer s =
     (case decode step value d of
        (d1, text) \<Rightarrow>
          (case drainLines h (buffer @ text) s of
             Normal (s1, buffer1) \<Rightarrow> readLoop h step later fin d1 buffer1 s1
           | Throws e (s1, buffer1) \<Rightarrow> Throws e s1
           | IllTyped \<Rightarrow> IllTyped))"

section \<open>The request lifecycle\<close>

record SendOptions =
  clearInput :: "bool option"

text \<open>\<open>options?.clearInput\<close> as a condition\<close>

definition wantsClear :: "SendOptions option \<Rightarrow> bool" where
  "wantsClear opts =
     (case opts of None \<Rightarrow> False
      | Some so \<Rightarrow> (case clearInput so of None \<Rightarrow> False | Some b \<Rightarrow> b))"

text \<open>
  What \<open>fetch\<close> answers: it rejects, or it resolves to a response, of which the
  session reads \<open>ok\<close>, \<open>status\<close> (here the text a template literal makes of it) and
  \<open>body\<close>, the chunks a reader will give and how the stream ends.
\<close>

record Response =
  ok :: bool
  statusText :: jsstring
  body :: "(byte list list \<times> streamEnd) option"

datatype fetchResult = FetchRejects jserror | FetchResolves Response

text \<open>\<open>this.abortController?.abort()\<close>\<close>

definition abortCurrent :: "RealtimeSession \<Rightarrow> RealtimeSession" where
  "abortCurrent s =
     (case abortController s of None \<Rightarrow> s | Some c \<Rightarrow> s\<lparr>aborted := aborted s @ [c]\<rparr>)"

text \<open>
  \<open>sendMessage\<close> past its three guards, up to the call of \<open>fetch\<close>, where it suspends
  for the first time.
\<close>

definition startTurn :: "jsstring \<Rightarrow> SendOptions option \<Rightarrow> RealtimeSession \<Rightarrow> RealtimeSession" where
  "startTurn trimmed opts s =
     (let userMessage =
            \<lparr>idM = js ''user-'' @ dateNow s (nowReads s) @ js ''-'' @ mathRandom s (randomReads s),
             role = User, content = Some trimmed, parts = None\<rparr>;
          newMessages = messages (snapshot s) @ [userMessage];
          s1 = s\<lparr>nowReads := Suc (nowReads s), randomReads := Suc (randomReads s),
                 currentTextId := None, activeScreenshotToolId := None\<rparr>;
          s2 = updateSnapshot
                 (noPatch\<lparr>p_messages := Some newMessages,
                    p_input := Some (if wantsClear opts then [] else input (snapshot s1)),
                    p_status := Some Submitted\<rparr>) s1;
          s3 = abortCurrent s2;
          s4 = s3\<lparr>abortController := Some (controllers s3), controllers := Suc (controllers s3)\<rparr>
      in s4\<lparr>requests := requests s4 @
                [(newMessages, dateNow s4 (nowReads s4), sandboxId (snapshot s4))],
            nowReads := Suc (nowReads s4)\<rparr>)"

text \<open>The rest of the \<open>try\<close> block, from the answer of \<open>fetch\<close> on.\<close>

definition afterFetch ::
  "platform \<Rightarrow> ('d \<Rightarrow> byte \<Rightarrow> 'd \<times> jsstring) \<Rightarrow> 'd \<Rightarrow> fetchResult \<Rightarrow> RealtimeSession \<Rightarrow>
   RealtimeSession completion" where
  "afterFetch P step d0 answer s =
     (case answer of
        FetchRejects e \<Rightarrow> Throws e s
      | FetchResolves response \<Rightarrow>
          if \<not> ok response then Throws (Error (js ''HTTP '' @ statusText response)) s
          else
            (case body response of
               None \<Rightarrow> Throws (Error (js ''No response body'')) s
             | Some (chunks, fin) \<Rightarrow>
                 andThen
                   (readLoop (processLine P) step chunks fin d0 []
                      (updateSnapshot (noPatch\<lparr>p_status := Some StreamingStatus\<rparr>) s))
                   (\<lambda>s1. Normal (updateSnapshot (noPatch\<lparr>p_status := Some Ready\<rparr>)
                                  (s1\<lparr>abortController := None\<rparr>)))))"

text \<open>
  The \<open>catch\<close> block: the callback is called before the status is reset, so when it
  throws the block ends there, with the callback's error and the status as it was.
\<close>

definition catchBlock :: "jserror \<Rightarrow> RealtimeSession \<Rightarrow> RealtimeSession completion" where
  "catchBlock e s =
     andThen (if isAbortError e then Normal s else callOnError e s)
       (\<lambda>s1. Normal (updateSnapshot (noPatch\<lparr>p_status := Some Ready\<rparr>) s1))"

text \<open>
  \<open>sendMessage\<close>, run to its end with no other call of the session in between: the
  transport's answer and the chunks of the body are given beforehand. It throws (its
  promise is rejected) only when the error callback throws in the \<open>catch\<close> block.
\<close>

definition sendMessage ::
  "platform \<Rightarrow> ('d \<Rightarrow> byte \<Rightarrow> 'd \<times> jsstring) \<Rightarrow> 'd \<Rightarrow> jsstring \<Rightarrow> SendOptions option \<Rightarrow>
   fetchResult \<Rightarrow> RealtimeSession \<Rightarrow> RealtimeSession completion" where
  "sendMessage P step d0 text opts answer s =
     (let trimmed = trim text in
      if trimmed = [] then Normal s
      else if status (snapshot s) = StreamingStatus \<or> status (snapshot s) = Submitted then Normal s
      else if isInitializing (snapshot s) then Normal s
      else
        (case afterFetch P step d0 answer (startTurn trimmed opts s) of
           Normal s1 \<Rightarrow> Normal s1
         | Throws e s1 \<Rightarrow> catchBlock e s1
         | IllTyped \<Rightarrow> IllTyped))"

definition stop :: "RealtimeSession \<Rightarrow> RealtimeSession" where
  "stop s =
     updateSnapshot (noPatch\<lparr>p_status := Some Ready\<rparr>)
       (case abortController s of
          None \<Rightarrow> s
        | Some c \<Rightarrow> (abortCurrent s)\<lparr>abortController := None\<rparr>)"

section \<open>The framing as the specification words it\<close>

text \<open>
  The text of the whole stream is read one code unit at a time: a newline ends the
  current line. \<open>terminatedLines\<close> are the lines a newline ends, \<open>remainder\<close> is what
  follows the last newline. \<open>framedLines\<close> adds the remainder as a last line when it
  is not blank; \<open>eventLines\<close> are the framed lines that are not blank after trimming.
  \<open>dispatchAll h\<close> hands the lines to \<open>h\<close> in their order and stops at the first that
  does not return. \<open>decodeAll\<close> is the text of a whole byte stream.
\<close>

fun splitLines :: "jsstring \<Rightarrow> jsstring \<Rightarrow> jsstring list \<times> jsstring" where
  "splitLines cur [] = ([], cur)"
| "splitLines cur (c # cs) =
     (if c = newline then (case splitLines [] cs of (ls, r) \<Rightarrow> (cur # ls, r))
      else splitLines (cur @ [c]) cs)"

definition terminatedLines :: "jsstring \<Rightarrow> jsstring list" where
  "terminatedLines text = fst (splitLines [] text)"

definition remainder :: "jsstring \<Rightarrow> jsstring" where
  "remainder text = snd (splitLines [] text)"

definition framedLines :: "jsstring \<Rightarrow> jsstring list" where
  "framedLines text =
     terminatedLines text @ (if trim (remainder text) \<noteq> [] then [remainder text] else [])"

definition eventLines :: "jsstring \<Rightarrow> jsstring list" where
  "eventLines text = filter (\<lambda>l. trim l \<noteq> []) (terminatedLines text @ [remainder text])"

fun dispatchAll :: "(jsstring \<Rightarrow> 's \<Rightarrow> 's completion) \<Rightarrow> jsstring list \<Rightarrow> 's \<Rightarrow> 's completion" where
  "dispatchAll h [] s = Normal s"
| "dispatchAll h (l # ls) s = andThen (h l s) (dispatchAll h ls)"

definition decodeAll :: "('d \<Rightarrow> byte \<Rightarrow> 'd \<times> jsstring) \<Rightarrow> 'd \<Rightarrow> byte list \<Rightarrow> jsstring" where
  "decodeAll step d bytes = snd (decode step bytes d)"

fun forgetBuffer :: "('s \<times> jsstring) completion \<Rightarrow> 's completion" where
  "forgetBuffer (Normal (s, b)) = Normal s"
| "forgetBuffer (Throws e (s, b)) = Throws e s"
| "forgetBuffer IllTyped = IllTyped"

section \<open>A platform to run the model on\<close>

text \<open>
  The theorems hold for every platform. To try them on concrete lines, here is one: a
  reader of the JSON grammar (\<open>readJson\<close>; the fuel is the length of the text, which
  bounds the depth of a value), a writer with an indentation of two, and the UTF-8
  decoder of the Encoding standard as a handler of bytes, without a final flush, which
  the session never asks for.

  The reader and the writer are not the platform's in every detail: a number is read
  as the exact rational its text denotes (a double rounds, overflows and underflows),
  the members of an object keep the order of the text (the platform puts the keys that
  look like array indices first), and the writer writes a number in positional
  notation (the platform turns to an exponent from \<open>1e21\<close> on) and leaves a lone
  surrogate as it is (the platform escapes it). The lines the theorems are tried on
  have no number, no escape and no such key.
\<close>

definition isJsonSpace :: "jschar \<Rightarrow> bool" where
  "isJsonSpace c \<longleftrightarrow> c = 0x20 \<or> c = 0x09 \<or> c = 0x0A \<or> c = 0x0D"

definition skipSpace :: "jsstring \<Rightarrow> jsstring" where
  "skipSpace s = dropWhile isJsonSpace s"

definition hexValue :: "jschar \<Rightarrow> jschar option" where
  "hexValue c =
     (if 0x30 \<le> c \<and> c \<le> 0x39 then Some (c - 0x30)
      else if 0x41 \<le> c \<and> c \<le> 0x46 then Some (c - 0x37)
      else if 0x61 \<le> c \<and> c \<le> 0x66 then Some (c - 0x57)
      else None)"

fun readHex4 :: "jsstring \<Rightarrow> (jschar \<times> jsstring) option" where
  "readHex4 (a # b # c # d # cs) =
     (case (hexValue a, hexValue b, hexValue c, hexValue d) of
        (Some x, Some y, Some z, Some w) \<Rightarrow> Some (x * 0x1000 + y * 0x100 + z * 0x10 + w, cs)
      | _ \<Rightarrow> None)"
| "readHex4 cs = None"

definition readEscape :: "jschar \<Rightarrow> jschar option" where
  "readEscape c =
     (if c = 0x22 \<or> c = 0x5C \<or> c = 0x2F then Some c
      else if c = 0x62 then Some 0x08
      else if c = 0x66 then Some 0x0C
      else if c = 0x6E then Some 0x0A
      else if c = 0x72 then Some 0x0D
      else if c = 0x74 then Some 0x09
      else None)"

fun readString :: "nat \<Rightarrow> jsstring \<Rightarrow> jsstring \<Rightarrow> (jsstring \<times> jsstring) option" where
  "readString 0 acc cs = None"
| "readString (Suc n) acc [] = None"
| "readString (Suc n) acc (c # cs) =
     (if c = 0x22 then Some (acc, cs)
      else if c = 0x5C then
        (case cs of
           [] \<Rightarrow> None
         | e # rest \<Rightarrow>
             if e = 0x75 then
               (case readHex4 rest of
                  None \<Rightarrow> None
                | Some (u, rest1) \<Rightarrow> readString n (acc @ [u]) rest1)
             else
               (case readEscape e of
                  None \<Rightarrow> None
                | Some u \<Rightarrow> readString n (acc @ [u]) rest))
      else if c < 0x20 then None
      else readString n (acc @ [c]) cs)"

definition isDigit :: "jschar \<Rightarrow> bool" where
  "isDigit c \<longleftrightarrow> 0x30 \<le> c \<and> c \<le> 0x39"

definition digitsValue :: "jsstring \<Rightarrow> nat" where
  "digitsValue ds = foldl (\<lambda>n c. 10 * n + unat (c - 0x30)) 0 ds"

definition readExponent :: "jsstring \<Rightarrow> (int \<times> jsstring) option" where
  "readExponent cs =
     (case cs of
        [] \<Rightarrow> Some (0, [])
      | c # rest \<Rightarrow>
          if c = 0x65 \<or> c = 0x45 then
            (let (neg, rest1) =
                   (case rest of
                      [] \<Rightarrow> (False, rest)
                    | s # r \<Rightarrow> if s = 0x2D then (True, r) else if s = 0x2B then (False, r)
                               else (False, rest));
                 ds = takeWhile isDigit rest1
             in if ds = [] then None
                else Some ((if neg then - int (digitsValue ds) else int (digitsValue ds)),
                           dropWhile isDigit rest1))
          else Some (0, cs))"

definition readFraction :: "jsstring \<Rightarrow> (rat \<times> jsstring) option" where
  "readFraction cs =
     (case cs of
        [] \<Rightarrow> Some (0, [])
      | c # rest \<Rightarrow>
          if c = 0x2E then
            (let ds = takeWhile isDigit rest
             in if ds = [] then None
                else Some (of_nat (digitsValue ds) / of_nat (10 ^ length ds),
                           dropWhile isDigit rest))
          else Some (0, cs))"

definition readNumber :: "jsstring \<Rightarrow> (json \<times> jsstring) option" where
  "readNumber cs =
     (let (neg, cs1) = (case cs of [] \<Rightarrow> (False, cs)
                        | c # rest \<Rightarrow> if c = 0x2D then (True, rest) else (False, cs));
          ds = takeWhile isDigit cs1
      in if ds = [] \<or> (length ds > 1 \<and> hd ds = 0x30) then None
         else
           (case readFraction (dropWhile isDigit cs1) of
              None \<Rightarrow> None
            | Some (f, cs2) \<Rightarrow>
                (case readExponent cs2 of
                   None \<Rightarrow> None
                 | Some (e, cs3) \<Rightarrow>
                     let m = of_nat (digitsValue ds) + f;
                         v = (if 0 \<le> e then m * of_nat (10 ^ nat e) else m / of_nat (10 ^ nat (- e)))
                     in Some (JNum (if neg then - v else v), cs3))))"

fun setMember :: "jsstring \<Rightarrow> json \<Rightarrow> (jsstring \<times> json) list \<Rightarrow> (jsstring \<times> json) list" where
  "setMember k v [] = [(k, v)]"
| "setMember k v ((k1, v1) # kvs) =
     (if k1 = k then (k, v) # kvs else (k1, v1) # setMember k v kvs)"

definition isPrefix :: "jsstring \<Rightarrow> jsstring \<Rightarrow> bool" where
  "isPrefix p s \<longleftrightarrow> take (length p) s = p"

fun readValue :: "nat \<Rightarrow> jsstring \<Rightarrow> (json \<times> jsstring) option"
  and readElements :: "nat \<Rightarrow> json list \<Rightarrow> jsstring \<Rightarrow> (json \<times> jsstring) option"
  and readMembers :: "nat \<Rightarrow> (jsstring \<times> json) list \<Rightarrow> jsstring \<Rightarrow> (json \<times> jsstring) option" where
  "readValue 0 cs = None"
| "readValue (Suc n) cs =
     (case skipSpace cs of
        [] \<Rightarrow> None
      | c # rest \<Rightarrow>
          if c = 0x7B then
            (case skipSpace rest of
               [] \<Rightarrow> None
             | d # rest1 \<Rightarrow> if d = 0x7D then Some (JObj [], rest1) else readMembers n [] rest)
          else if c = 0x5B then
            (case skipSpace rest of
               [] \<Rightarrow> None
             | d # rest1 \<Rightarrow> if d = 0x5D then Some (JArr [], rest1) else readElements n [] rest)
          else if c = 0x22 then
            (case readString (length rest) [] rest of
               None \<Rightarrow> None
             | Some (s, rest1) \<Rightarrow> Some (JStr s, rest1))
          else if isPrefix (js ''true'') (c # rest) then Some (JBool True, drop 4 (c # rest))
          else if isPrefix (js ''false'') (c # rest) then Some (JBool False, drop 5 (c # rest))
          else if isPrefix (js ''null'') (c # rest) then Some (JNull, drop 4 (c # rest))
          else readNumber (c # rest))"
| "readElements 0 acc cs = None"
| "readElements (Suc n) acc cs =
     (case readValue n cs of
        None \<Rightarrow> None
      | Some (v, rest) \<Rightarrow>
          (case skipSpace rest of
             [] \<Rightarrow> None
           | c # rest1 \<Rightarrow>
               if c = 0x2C then readElements n (acc @ [v]) rest1
               else if c = 0x5D then Some (JArr (acc @ [v]), rest1)
               else None))"
| "readMembers 0 acc cs = None"
| "readMembers (Suc n) acc cs =
     (case skipSpace cs of
        [] \<Rightarrow> None
      | q # rest \<Rightarrow>
          if q \<noteq> 0x22 then None
          else
            (case readString (length rest) [] rest of
               None \<Rightarrow> None
             | Some (k, rest1) \<Rightarrow>
                 (case skipSpace rest1 of
                    [] \<Rightarrow> None
                  | colon # rest2 \<Rightarrow>
                      if colon \<noteq> 0x3A then None
                      else
                        (case readValue n rest2 of
                           None \<Rightarrow> None
                         | Some (v, rest3) \<Rightarrow>
                             (case skipSpace rest3 of
                                [] \<Rightarrow> None
                              | c # rest4 \<Rightarrow>
                                  if c = 0x2C then readMembers n (setMember k v acc) rest4
                                  else if c = 0x7D then Some (JObj (setMember k v acc), rest4)
                                  else None)))))"

definition readJson :: "jsstring \<Rightarrow> json option" where
  "readJson s =
     (case readValue (Suc (length s)) s of
        None \<Rightarrow> None
      | Some (v, rest) \<Rightarrow> if skipSpace rest = [] then Some v else None)"

function writeNat :: "nat \<Rightarrow> jsstring" where
  "writeNat n = (if n < 10 then [0x30 + of_nat n] else writeNat (n div 10) @ [0x30 + of_nat (n mod 10)])"
  by pat_completeness auto
termination
  by (relation "measure id") auto

declare writeNat.simps [simp del]

fun writeFraction :: "nat \<Rightarrow> nat \<Rightarrow> nat \<Rightarrow> jsstring" where
  "writeFraction 0 r d = []"
| "writeFraction (Suc k) r d =
     (if r = 0 then [] else (0x30 + of_nat (10 * r div d)) # writeFraction k (10 * r mod d) d)"

definition writeNumber :: "rat \<Rightarrow> jsstring" where
  "writeNumber q =
     (case quotient_of q of
        (n, d) \<Rightarrow>
          (let a = nat \<bar>n\<bar>; fr = writeFraction 17 (a mod nat d) (nat d)
           in (if n < 0 then js ''-'' else []) @ writeNat (a div nat d) @
              (if fr = [] then [] else js ''.'' @ fr)))"

definition hexDigit :: "jschar \<Rightarrow> jschar" where
  "hexDigit v = (if v < 10 then 0x30 + v else 0x57 + v)"

definition writeChar :: "jschar \<Rightarrow> jsstring" where
  "writeChar c =
     (if c = 0x22 then [0x5C, 0x22]
      else if c = 0x5C then [0x5C, 0x5C]
      else if c = 0x08 then [0x5C, 0x62]
      else if c = 0x0C then [0x5C, 0x66]
      else if c = 0x0A then [0x5C, 0x6E]
      else if c = 0x0D then [0x5C, 0x72]
      else if c = 0x09 then [0x5C, 0x74]
      else if c < 0x20 then [0x5C, 0x75, 0x30, 0x30] @ [hexDigit (c div 16), hexDigit (c mod 16)]
      else [c])"

definition writeString :: "jsstring \<Rightarrow> jsstring" where
  "writeString s = [0x22] @ concat (map writeChar s) @ [0x22]"

fun joinWith :: "jsstring \<Rightarrow> jsstring list \<Rightarrow> jsstring" where
  "joinWith sep [] = []"
| "joinWith sep [x] = x"
| "joinWith sep (x # y # ys) = x @ sep @ joinWith sep (y # ys)"

fun writeValue :: "nat \<Rightarrow> json \<Rightarrow> jsstring" where
  "writeValue ind JNull = js ''null''"
| "writeValue ind (JBool b) = (if b then js ''true'' else js ''false'')"
| "writeValue ind (JNum q) = writeNumber q"
| "writeValue ind (JStr s) = writeString s"
| "writeValue ind (JArr vs) =
     (if vs = [] then js ''[]''
      else js ''['' @ [newline] @
           joinWith (js '','' @ [newline])
             (map (\<lambda>v. replicate (ind + 2) 0x20 @ writeValue (ind + 2) v) vs) @
           [newline] @ replicate ind 0x20 @ js '']'')"
| "writeValue ind (JObj kvs) =
     (if kvs = [] then js ''{}''
      else js ''{'' @ [newline] @
           joinWith (js '','' @ [newline])
             (map (\<lambda>(k, v). replicate (ind + 2) 0x20 @ writeString k @ js '': '' @
                              writeValue (ind + 2) v) kvs) @
           [newline] @ replicate ind 0x20 @ js ''}'')"

definition refPlatform :: platform where
  "refPlatform = \<lparr>JSON_parse = readJson, JSON_stringify = writeValue 0\<rparr>"

record utf8State =
  codePoint :: nat
  bytesSeen :: nat
  bytesNeeded :: nat
  lowerBoundary :: nat
  upperBoundary :: nat
  bomSeen :: bool

definition utf8Start :: utf8State where
  "utf8Start = \<lparr>codePoint = 0, bytesSeen = 0, bytesNeeded = 0, lowerBoundary = 0x80,
     upperBoundary = 0xBF, bomSeen = False\<rparr>"

definition utf16 :: "nat \<Rightarrow> jsstring" where
  "utf16 cp =
     (if cp < 0x10000 then [of_nat cp]
      else [of_nat (0xD800 + (cp - 0x10000) div 0x400), of_nat (0xDC00 + (cp - 0x10000) mod 0x400)])"

definition emitCodePoint :: "utf8State \<Rightarrow> nat \<Rightarrow> utf8State \<times> jsstring" where
  "emitCodePoint d cp =
     (d\<lparr>codePoint := 0, bytesSeen := 0, bytesNeeded := 0, lowerBoundary := 0x80,
        upperBoundary := 0xBF, bomSeen := True\<rparr>,
      if \<not> bomSeen d \<and> cp = 0xFEFF then [] else utf16 cp)"

definition utf8Lead :: "utf8State \<Rightarrow> nat \<Rightarrow> utf8State \<times> jsstring" where
  "utf8Lead d b =
     (if b \<le> 0x7F then emitCodePoint d b
      else if 0xC2 \<le> b \<and> b \<le> 0xDF then (d\<lparr>bytesNeeded := 1, codePoint := b - 0xC0\<rparr>, [])
      else if 0xE0 \<le> b \<and> b \<le> 0xEF then
        (d\<lparr>lowerBoundary := (if b = 0xE0 then 0xA0 else lowerBoundary d),
           upperBoundary := (if b = 0xED then 0x9F else upperBoundary d),
           bytesNeeded := 2, codePoint := b - 0xE0\<rparr>, [])
      else if 0xF0 \<le> b \<and> b \<le> 0xF4 then
        (d\<lparr>lowerBoundary := (if b = 0xF0 then 0x90 else lowerBoundary d),
           upperBoundary := (if b = 0xF4 then 0x8F else upperBoundary d),
           bytesNeeded := 3, codePoint := b - 0xF0\<rparr>, [])
      else emitCodePoint d 0xFFFD)"

definition utf8Step :: "utf8State \<Rightarrow> byte \<Rightarrow> utf8State \<times> jsstring" where
  "utf8Step d byte =
     (let b = unat byte in
      if bytesNeeded d = 0 then utf8Lead d b
      else if b < lowerBoundary d \<or> upperBoundary d < b then
        (case emitCodePoint d 0xFFFD of
           (d1, t1) \<Rightarrow> (case utf8Lead d1 b of (d2, t2) \<Rightarrow> (d2, t1 @ t2)))
      else
        let d1 = d\<lparr>lowerBoundary := 0x80, upperBoundary := 0xBF,
                   codePoint := codePoint d * 64 + (b - 0x80), bytesSeen := bytesSeen d + 1\<rparr>
        in if bytesSeen d1 \<noteq> bytesNeeded d1 then (d1, [])
           else emitCodePoint d1 (codePoint d1))"

definition demoSession :: RealtimeSession where
  "demoSession =
     subscribe 1 (newSession (Some (\<lambda>e. None)) (\<lambda>k. writeNat (1700000000000 + k)) (\<lambda>k. js ''0.'' @ writeNat (k + 1)))"

text \<open>
  A session to try the theorems on: it has one listener and an error callback that
  returns, its clock starts at 1700000000000 and advances by one at each reading, and
  its random generator gives 0.1, 0.2, and so on. \<open>readySession\<close> is the session once
  the caller has ended its initialization; \<open>faultySession\<close> is the same with an error
  callback that throws. \<open>ascii\<close> writes the bytes of a chunk.
\<close>

definition readySession :: RealtimeSession where
  "readySession = setInitializing False demoSession"



section \<open>Notions the properties are stated with\<close>

text \<open>
  \<open>isEvent P rawLine kind event\<close>: the line is not blank, the platform parses it to
  \<open>event\<close>, and the \<open>type\<close> of the event is \<open>kind\<close>.
\<close>

definition isEvent :: "platform \<Rightarrow> jsstring \<Rightarrow> string \<Rightarrow> json \<Rightarrow> bool" where
  "isEvent P rawLine kind event \<longleftrightarrow>
     trim rawLine \<noteq> [] \<and> JSON_parse P (trim rawLine) = Some event \<and>
     getProp event (js ''type'') = Some (JStr (js kind))"

text \<open>
  The tool invocations of the transcript. \<open>invocationsOf tc m\<close> are the invocations with
  the \<open>toolCallId\<close> \<open>tc\<close> among the parts of the message \<open>m\<close>, \<open>toolMessages tc\<close> the
  messages that have one, and \<open>toolState tc s\<close> the states of all the invocations for
  \<open>tc\<close> in the transcript of \<open>s\<close>, in their order.

  \<open>correlated s\<close>: the map from tool calls to messages is right about the transcript.
  For a \<open>toolCallId\<close> the map does not know, no message has an invocation; for one it
  knows, exactly one message has one, it has exactly one, its id is the one in the map
  and its state is not \<open>streaming\<close>.

  \<open>isToolEvent P rawLine kind tc\<close>: the line is an event of that kind whose \<open>toolCallId\<close>
  is the non-empty string \<open>tc\<close>. \<open>toolStateAfter P ls tc s\<close> is the state of \<open>tc\<close> once
  the lines \<open>ls\<close> have been processed, if they all return.
\<close>

fun invocationsIn :: "jsstring \<Rightarrow> Part list \<Rightarrow> ToolInvocation list" where
  "invocationsIn tc [] = []"
| "invocationsIn tc (OtherPart t # ps) = invocationsIn tc ps"
| "invocationsIn tc (ToolInvocationPart ti # ps) =
     (if toolCallId ti = tc then ti # invocationsIn tc ps else invocationsIn tc ps)"

definition invocationsOf :: "jsstring \<Rightarrow> Message \<Rightarrow> ToolInvocation list" where
  "invocationsOf tc m = (case parts m of None \<Rightarrow> [] | Some ps \<Rightarrow> invocationsIn tc ps)"

definition toolMessages :: "jsstring \<Rightarrow> Message list \<Rightarrow> Message list" where
  "toolMessages tc ms = filter (\<lambda>m. invocationsOf tc m \<noteq> []) ms"

definition toolState :: "jsstring \<Rightarrow> RealtimeSession \<Rightarrow> ToolInvocationState list" where
  "toolState tc s = map state (concat (map (invocationsOf tc) (messages (snapshot s))))"

definition correlatedFor :: "jsstring \<Rightarrow> RealtimeSession \<Rightarrow> bool" where
  "correlatedFor tc s \<longleftrightarrow>
     (if unset (toolMessageMap s tc) then toolMessages tc (messages (snapshot s)) = []
      else \<exists>m ti. toolMessages tc (messages (snapshot s)) = [m] \<and>
             toolMessageMap s tc = Some (idM m) \<and> invocationsOf tc m = [ti] \<and>
             state ti \<noteq> Streaming)"

definition correlated :: "RealtimeSession \<Rightarrow> bool" where
  "correlated s \<longleftrightarrow> (\<forall>tc. correlatedFor tc s)"

definition isToolEvent :: "platform \<Rightarrow> jsstring \<Rightarrow> string \<Rightarrow> jsstring \<Rightarrow> bool" where
  "isToolEvent P rawLine kind tc \<longleftrightarrow>
     tc \<noteq> [] \<and> (\<exists>event. isEvent P rawLine kind event \<and>
                   getProp event (js ''toolCallId'') = Some (JStr tc))"

definition toolStateAfter ::
  "platform \<Rightarrow> jsstring list \<Rightarrow> jsstring \<Rightarrow> RealtimeSession \<Rightarrow> ToolInvocationState list option" where
  "toolStateAfter P ls tc s =
     (case dispatchAll (processLine P) ls s of
        Normal s' \<Rightarrow> Some (toolState tc s')
      | Throws e s' \<Rightarrow> None
      | IllTyped \<Rightarrow> None)"

text \<open>
  The sessions a caller can reach: from a new one, by the methods of the class, a
  \<open>sendMessage\<close> being run to its end before the next call.
\<close>

inductive reachable ::
  "platform \<Rightarrow> ('d \<Rightarrow> byte \<Rightarrow> 'd \<times> jsstring) \<Rightarrow> 'd \<Rightarrow> RealtimeSession \<Rightarrow> bool"
  for P :: platform and step :: "'d \<Rightarrow> byte \<Rightarrow> 'd \<times> jsstring" and d0 :: 'd where
  constructed: "reachable P step d0 (newSession cb dn mr)"
| subscribed: "reachable P step d0 s \<Longrightarrow> reachable P step d0 (subscribe l s)"
| unsubscribed: "reachable P step d0 s \<Longrightarrow> reachable P step d0 (unsubscribe l s)"
| inputSet: "reachable P step d0 s \<Longrightarrow> reachable P step d0 (setInput v s)"
| initializingSet: "reachable P step d0 s \<Longrightarrow> reachable P step d0 (setInitializing flag s)"
| desktopUpdated: "reachable P step d0 s \<Longrightarrow> reachable P step d0 (updateDesktop url sb s)"
| stopped: "reachable P step d0 s \<Longrightarrow> reachable P step d0 (stop s)"
| sent: "reachable P step d0 s \<Longrightarrow> sendMessage P step d0 typed opts answer s = Normal s' \<Longrightarrow>
         reachable P step d0 s'"
| sentThrown: "reachable P step d0 s \<Longrightarrow> sendMessage P step d0 typed opts answer s = Throws e s' \<Longrightarrow>
         reachable P step d0 s'"



section \<open>Reading the snapshot after an update\<close>

lemma snapshot_updateSnapshot [simp]:
  "snapshot (updateSnapshot p s) = merge (snapshot s) p"
  by (simp add: updateSnapshot_def emit_def)

lemma messages_merge_status [simp]:
  "messages (merge sn (noPatch\<lparr>p_status := Some st\<rparr>)) = messages sn"
  "status (merge sn (noPatch\<lparr>p_status := Some st\<rparr>)) = st"
  by (simp_all add: merge_def noPatch_def)

lemma messages_replaceMessages [simp]:
  "messages (snapshot (replaceMessages ms s)) = ms"
  by (simp add: replaceMessages_def merge_def noPatch_def)

lemma toolMessageMap_replaceMessages [simp]:
  "toolMessageMap (replaceMessages ms s) = toolMessageMap s"
  by (simp add: replaceMessages_def updateSnapshot_def emit_def)

lemma toolMessageMap_updateSnapshot [simp]:
  "toolMessageMap (updateSnapshot p s) = toolMessageMap s"
  by (simp add: updateSnapshot_def emit_def)

lemma messages_merge_other [simp]:
  "p_messages p = None \<Longrightarrow> messages (merge sn p) = messages sn"
  by (simp add: merge_def)

lemma andThen_eq_Normal: "andThen c f = Normal b \<longleftrightarrow> (\<exists>a. c = Normal a \<and> f a = Normal b)"
  by (cases c) simp_all

lemma andThen_eq_Throws:
  "andThen c f = Throws e b \<longleftrightarrow> c = Throws e b \<or> (\<exists>a. c = Normal a \<and> f a = Throws e b)"
  by (cases c) auto

lemma callOnError_Normal:
  "callOnError e s = Normal s' \<Longrightarrow> snapshot s' = snapshot s \<and> toolMessageMap s' = toolMessageMap s"
  by (auto simp add: callOnError_def split: option.splits)

lemma callOnError_Throws:
  "callOnError e s = Throws x s' \<Longrightarrow> snapshot s' = snapshot s \<and> toolMessageMap s' = toolMessageMap s"
  by (auto simp add: callOnError_def split: option.splits)

lemmas session_simps = readySession_def demoSession_def newSession_def subscribe_def
  setInitializing_def updateSnapshot_def emit_def merge_def noPatch_def

lemmas readJson_simps = readJson_def js_def skipSpace_def isJsonSpace_def trim_def isWhiteSpace_def
  refPlatform_def isPrefix_def

section \<open>What a line of each kind does\<close>

lemma isEvent_not_null: "isEvent P l kind e \<Longrightarrow> e \<noteq> JNull"
  by (auto simp add: isEvent_def)

lemma processLine_text_delta:
  assumes "isEvent P l ''text-delta'' e"
  shows "processLine P l s =
     (let delta = js_or (js_or (getProp e (js ''delta'')) (getProp e (js ''textDelta''))) (Some (JStr []))
      in if \<not> truthy delta then Normal s
         else (case delta of Some (JStr d) \<Rightarrow> Normal (handleTextDelta d s) | _ \<Rightarrow> IllTyped))"
  using assms isEvent_not_null [OF assms]
  by (cases e) (simp_all add: isEvent_def processLine_def Let_def)

lemma processLine_delta:
  assumes "isEvent P l ''text-delta'' e" and "getProp e (js ''delta'') = Some (JStr d)" and "d \<noteq> []"
  shows "processLine P l s = Normal (handleTextDelta d s)"
  using assms by (simp add: processLine_text_delta js_or_def)

lemma processLine_tool_input:
  assumes "isEvent P l ''tool-input-available'' e"
    and "getProp e (js ''toolCallId'') = Some (JStr tc)" and "tc \<noteq> []"
  shows "processLine P l s =
     Normal (let inp = getProp e (js ''input'');
                 s1 = handleToolEvent tc Call
                        \<lparr>u_toolName = Some (getProp e (js ''toolName'')), u_args = Some inp,
                         u_argsText = Some (if truthy inp then map_option (JSON_stringify P) inp else None),
                         u_result = None\<rparr> s
             in if optChain inp (js ''action'') = Some (JStr (js ''screenshot''))
                then s1\<lparr>activeScreenshotToolId := Some tc\<rparr> else s1)"
  using assms isEvent_not_null [OF assms(1)]
  by (cases e) (simp_all add: isEvent_def processLine_def Let_def js_def)

lemma processLine_tool_output:
  assumes "isEvent P l ''tool-output-available'' e"
    and "getProp e (js ''toolCallId'') = Some (JStr tc)" and "tc \<noteq> []"
  shows "processLine P l s =
     Normal (let out = getProp e (js ''output'');
                 s1 = handleToolEvent tc Result
                        \<lparr>u_toolName = None, u_args = None, u_argsText = None, u_result = Some out\<rparr> s
             in if optChain out (js ''type'') = Some (JStr (js ''image''))
                then s1\<lparr>activeScreenshotToolId := Some tc\<rparr> else s1)"
  using assms isEvent_not_null [OF assms(1)]
  by (cases e) (simp_all add: isEvent_def processLine_def Let_def js_def)

text \<open>What a line that returns has done to the transcript and to the map.\<close>

lemma processLine_effect:
  assumes run: "processLine P l s = Normal s'"
  obtains (same) "messages (snapshot s') = messages (snapshot s)"
      "toolMessageMap s' = toolMessageMap s"
  | (textDelta) d where "messages (snapshot s') = messages (snapshot (handleTextDelta d s))"
      "toolMessageMap s' = toolMessageMap (handleTextDelta d s)"
  | (toolInput) tc u where "isToolEvent P l ''tool-input-available'' tc"
      "messages (snapshot s') = messages (snapshot (handleToolEvent tc Call u s))"
      "toolMessageMap s' = toolMessageMap (handleToolEvent tc Call u s)"
  | (toolOutput) tc u where "isToolEvent P l ''tool-output-available'' tc"
      "messages (snapshot s') = messages (snapshot (handleToolEvent tc Result u s))"
      "toolMessageMap s' = toolMessageMap (handleToolEvent tc Result u s)"
  | (shot) tc u e where "isEvent P l ''screenshot-update'' e"
      "activeScreenshotToolId s = Some tc"
      "messages (snapshot s') = messages (snapshot (handleToolEvent tc Result u s))"
      "toolMessageMap s' = toolMessageMap (handleToolEvent tc Result u s)"
proof (cases "trim l = []")
  case True
  with run have "s' = s" by (simp add: processLine_def)
  then show ?thesis by (simp add: same)
next
  case nonblank: False
  show ?thesis
  proof (cases "JSON_parse P (trim l)")
    case None
    with run nonblank have "s' = s" by (simp add: processLine_def Let_def)
    then show ?thesis by (simp add: same)
  next
    case (Some e)
    have notnull: "e \<noteq> JNull"
      using run nonblank Some by (auto simp add: processLine_def Let_def)
    have ev: "isEvent P l kind e" if "getProp e (js ''type'') = Some (JStr (js kind))" for kind
      using that nonblank Some by (simp add: isEvent_def)
    let ?ty = "getProp e (js ''type'')"
    consider (k1) "?ty = Some (JStr (js ''text-delta''))"
      | (k2) "?ty \<noteq> Some (JStr (js ''text-delta''))" "?ty = Some (JStr (js ''tool-input-available''))"
      | (k3) "?ty \<noteq> Some (JStr (js ''text-delta''))" "?ty \<noteq> Some (JStr (js ''tool-input-available''))"
            "?ty = Some (JStr (js ''tool-output-available''))"
      | (k4) "?ty \<noteq> Some (JStr (js ''text-delta''))" "?ty \<noteq> Some (JStr (js ''tool-input-available''))"
            "?ty \<noteq> Some (JStr (js ''tool-output-available''))"
            "?ty = Some (JStr (js ''screenshot-update''))"
      | (k5) "?ty \<noteq> Some (JStr (js ''text-delta''))" "?ty \<noteq> Some (JStr (js ''tool-input-available''))"
            "?ty \<noteq> Some (JStr (js ''tool-output-available''))"
            "?ty \<noteq> Some (JStr (js ''screenshot-update''))"
      by blast
    then show ?thesis
    proof cases
      case k1
      let ?delta = "js_or (js_or (getProp e (js ''delta'')) (getProp e (js ''textDelta''))) (Some (JStr []))"
      from run have r: "(if \<not> truthy ?delta then Normal s
             else (case ?delta of Some (JStr d) \<Rightarrow> Normal (handleTextDelta d s) | _ \<Rightarrow> IllTyped)) = Normal s'"
        unfolding processLine_text_delta [OF ev [OF k1]] by (simp add: Let_def)
      show ?thesis
      proof (cases "truthy ?delta")
        case False
        with r have "s' = s" by simp
        then show ?thesis by (simp add: same)
      next
        case True
        with r obtain d where "s' = handleTextDelta d s"
          by (auto split: option.splits json.splits)
        then show ?thesis by (simp add: textDelta)
      qed
    next
      case k2
      let ?tcv = "getProp e (js ''toolCallId'')"
      show ?thesis
      proof (cases "truthy ?tcv")
        case False
        with run nonblank Some notnull k2 have "s' = s"
          by (cases e) (simp_all add: processLine_def Let_def)
        then show ?thesis by (simp add: same)
      next
        case True
        with run nonblank Some notnull k2 obtain tc where tc: "?tcv = Some (JStr tc)"
          by (cases e) (auto simp add: processLine_def Let_def split: option.splits json.splits)
        with True have ne: "tc \<noteq> []" by simp
        have te: "isToolEvent P l ''tool-input-available'' tc"
          using ev [OF k2(2)] tc ne by (auto simp add: isToolEvent_def)
        from run processLine_tool_input [OF ev [OF k2(2)] tc ne, of s]
        obtain u where "s' = handleToolEvent tc Call u s \<or>
            s' = (handleToolEvent tc Call u s)\<lparr>activeScreenshotToolId := Some tc\<rparr>"
          by (auto simp add: Let_def split: if_splits)
        then have "messages (snapshot s') = messages (snapshot (handleToolEvent tc Call u s))"
          "toolMessageMap s' = toolMessageMap (handleToolEvent tc Call u s)"
          by auto
        with te show ?thesis by (rule toolInput)
      qed
    next
      case k3
      let ?tcv = "getProp e (js ''toolCallId'')"
      show ?thesis
      proof (cases "truthy ?tcv")
        case False
        with run nonblank Some notnull k3 have "s' = s"
          by (cases e) (simp_all add: processLine_def Let_def)
        then show ?thesis by (simp add: same)
      next
        case True
        with run nonblank Some notnull k3 obtain tc where tc: "?tcv = Some (JStr tc)"
          by (cases e) (auto simp add: processLine_def Let_def split: option.splits json.splits)
        with True have ne: "tc \<noteq> []" by simp
        have te: "isToolEvent P l ''tool-output-available'' tc"
          using ev [OF k3(3)] tc ne by (auto simp add: isToolEvent_def)
        from run processLine_tool_output [OF ev [OF k3(3)] tc ne, of s]
        obtain u where "s' = handleToolEvent tc Result u s \<or>
            s' = (handleToolEvent tc Result u s)\<lparr>activeScreenshotToolId := Some tc\<rparr>"
          by (auto simp add: Let_def split: if_splits)
        then have "messages (snapshot s') = messages (snapshot (handleToolEvent tc Result u s))"
          "toolMessageMap s' = toolMessageMap (handleToolEvent tc Result u s)"
          by auto
        with te show ?thesis by (rule toolOutput)
      qed
    next
      case k4
      from run nonblank Some notnull k4
      have "s' = s \<or> (\<exists>tc u. activeScreenshotToolId s = Some tc \<and> s' = handleToolEvent tc Result u s)"
        by (cases e) (auto simp add: processLine_def Let_def split: option.splits if_splits)
      then show ?thesis
      proof
        assume "s' = s"
        then show ?thesis by (simp add: same)
      next
        assume "\<exists>tc u. activeScreenshotToolId s = Some tc \<and> s' = handleToolEvent tc Result u s"
        then obtain tc u where "activeScreenshotToolId s = Some tc" "s' = handleToolEvent tc Result u s"
          by auto
        with ev [OF k4(4)] show ?thesis by (simp add: shot)
      qed
    next
      case k5
      from run nonblank Some notnull k5
      have "messages (snapshot s') = messages (snapshot s) \<and> toolMessageMap s' = toolMessageMap s"
        by (cases e)
           (auto simp add: processLine_def Let_def andThen_eq_Normal dest: callOnError_Normal
              split: option.splits if_splits json.splits)
      then show ?thesis by (simp add: same)
    qed
  qed
qed

section \<open>Framing is independent of the chunks\<close>

lemma andThen_Normal [simp]: "andThen c Normal = c"
  by (cases c) simp_all

lemma andThen_assoc: "andThen (andThen c f) g = andThen c (\<lambda>a. andThen (f a) g)"
  by (cases c) simp_all

lemma dispatchAll_Nil: "dispatchAll h [] = Normal"
  by (rule ext) simp

lemma dispatchAll_append:
  "dispatchAll h (xs @ ys) s = andThen (dispatchAll h xs s) (dispatchAll h ys)"
proof (induction xs arbitrary: s)
  case Nil
  show ?case by simp
next
  case (Cons x xs)
  show ?case
    by (cases "h x s") (simp_all add: Cons.IH)
qed

lemma splitLines_append:
  "splitLines cur (a @ b) =
     (case splitLines cur a of (ls, r) \<Rightarrow>
        (case splitLines r b of (ls', r') \<Rightarrow> (ls @ ls', r')))"
  by (induction a arbitrary: cur) (auto split: prod.splits)

lemma splitLines_no_newline:
  "newline \<notin> set a \<Longrightarrow> splitLines cur a = ([], cur @ a)"
  by (induction a arbitrary: cur) auto

lemma indexOf_None: "indexOf b c = None \<longleftrightarrow> c \<notin> set b"
  by (induction b) auto

lemma indexOf_Some:
  "indexOf b c = Some i \<Longrightarrow> b = take i b @ c # drop (Suc i) b \<and> c \<notin> set (take i b)"
proof (induction b arbitrary: i)
  case Nil
  then show ?case by simp
next
  case (Cons x xs)
  show ?case
  proof (cases "x = c")
    case True
    with Cons.prems show ?thesis by simp
  next
    case False
    with Cons.prems obtain j where j: "indexOf xs c = Some j" "i = Suc j" by auto
    from Cons.IH [OF j(1)] False j(2) show ?thesis by simp
  qed
qed

lemma splitLines_at_newline:
  assumes "indexOf b newline = Some i"
  shows "splitLines [] b =
    (slice b 0 i # fst (splitLines [] (sliceFrom b (i + 1))), snd (splitLines [] (sliceFrom b (i + 1))))"
proof -
  from indexOf_Some [OF assms]
  have b: "b = take i b @ newline # drop (Suc i) b" and free: "newline \<notin> set (take i b)"
    by simp_all
  have "splitLines [] b = splitLines [] (take i b @ newline # drop (Suc i) b)"
    using b by simp
  also have "\<dots> = (take i b # fst (splitLines [] (drop (Suc i) b)), snd (splitLines [] (drop (Suc i) b)))"
    by (simp add: splitLines_append splitLines_no_newline [OF free] split: prod.splits)
  finally show ?thesis by (simp add: slice_def sliceFrom_def)
qed

lemma drainLines_dispatches:
  "forgetBuffer (drainLines h buffer s) = dispatchAll h (terminatedLines buffer) s"
proof (induction h buffer s rule: drainLines.induct)
  case (1 h buffer s)
  show ?case
  proof (cases "indexOf buffer newline")
    case None
    then have "newline \<notin> set buffer" by (simp add: indexOf_None)
    then show ?thesis
      using None by (subst drainLines.simps) (simp add: terminatedLines_def splitLines_no_newline)
  next
    case (Some i)
    note sp = splitLines_at_newline [OF Some]
    show ?thesis
    proof (cases "h (slice buffer 0 i) s")
      case (Normal s1)
      from "1.IH" [OF Some Normal] show ?thesis
        using Some Normal by (subst drainLines.simps) (simp add: terminatedLines_def sp)
    next
      case (Throws e s1)
      then show ?thesis
        using Some by (subst drainLines.simps) (simp add: terminatedLines_def sp)
    next
      case IllTyped
      then show ?thesis
        using Some by (subst drainLines.simps) (simp add: terminatedLines_def sp)
    qed
  qed
qed

lemma drainLines_buffer:
  "drainLines h buffer s = Normal (s1, b1) \<Longrightarrow> b1 = remainder buffer"
proof (induction h buffer s rule: drainLines.induct)
  case (1 h buffer s)
  show ?case
  proof (cases "indexOf buffer newline")
    case None
    then have "newline \<notin> set buffer" by (simp add: indexOf_None)
    then show ?thesis
      using None "1.prems" by (subst (asm) drainLines.simps) (simp add: remainder_def splitLines_no_newline)
  next
    case (Some i)
    note sp = splitLines_at_newline [OF Some]
    show ?thesis
    proof (cases "h (slice buffer 0 i) s")
      case (Normal s2)
      from "1.prems" Some Normal
      have "drainLines h (sliceFrom buffer (i + 1)) s2 = Normal (s1, b1)"
        by (subst (asm) drainLines.simps) simp
      from "1.IH" [OF Some Normal this] show ?thesis
        by (simp add: remainder_def sp)
    next
      case (Throws e s2)
      with "1.prems" Some show ?thesis
        by (subst (asm) drainLines.simps) simp
    next
      case IllTyped
      with "1.prems" Some show ?thesis
        by (subst (asm) drainLines.simps) simp
    qed
  qed
qed

lemma remainder_no_newline: "newline \<notin> set cur \<Longrightarrow> newline \<notin> set (snd (splitLines cur a))"
proof (induction a arbitrary: cur)
  case Nil
  then show ?case by simp
next
  case (Cons c cs)
  show ?case
  proof (cases "c = newline")
    case True
    have "newline \<notin> set (snd (splitLines [] cs))" by (rule Cons.IH) simp
    with True show ?thesis by (auto split: prod.splits)
  next
    case False
    with Cons.prems have "newline \<notin> set (snd (splitLines (cur @ [c]) cs))"
      by (intro Cons.IH) simp
    with False show ?thesis by simp
  qed
qed

lemma decode_append:
  "decode step (a @ b) d =
     (case decode step a d of (d1, t1) \<Rightarrow>
        (case decode step b d1 of (d2, t2) \<Rightarrow> (d2, t1 @ t2)))"
  by (induction a arbitrary: d) (auto split: prod.splits)

lemma terminatedLines_append:
  "terminatedLines (a @ b) = terminatedLines a @ terminatedLines (remainder a @ b)"
proof -
  have "newline \<notin> set (remainder a)"
    unfolding remainder_def by (rule remainder_no_newline) simp
  then show ?thesis 
    by (simp add: terminatedLines_def remainder_def splitLines_append splitLines_no_newline split: prod.splits)
qed

lemma remainder_append:
  "remainder (a @ b) = remainder (remainder a @ b)"
proof -
  have "newline \<notin> set (remainder a)"
    unfolding remainder_def by (rule remainder_no_newline) simp
  then show ?thesis 
    by (simp add: terminatedLines_def remainder_def splitLines_append splitLines_no_newline split: prod.splits)
qed

lemma readLoop_Done:
  "newline \<notin> set buffer \<Longrightarrow>
   readLoop h step chunks Done d buffer s =
     dispatchAll h (framedLines (buffer @ decodeAll step d (concat chunks))) s"
proof (induction chunks arbitrary: d buffer s)
  case Nil
  then show ?case
    by (simp add: framedLines_def decodeAll_def terminatedLines_def remainder_def splitLines_no_newline
        dispatchAll_Nil)
next
  case (Cons c cs)
  obtain d1 t1 where dec: "decode step c d = (d1, t1)" by (cases "decode step c d")
  have whole: "decodeAll step d (c @ concat cs) = t1 @ decodeAll step d1 (concat cs)"
    by (simp add: decodeAll_def decode_append dec split: prod.splits)
  have tl: "terminatedLines (buffer @ decodeAll step d (c @ concat cs)) =
      terminatedLines (buffer @ t1) @ terminatedLines (remainder (buffer @ t1) @ decodeAll step d1 (concat cs))"
    unfolding whole using terminatedLines_append [of "buffer @ t1"] by simp
  have rm: "remainder (buffer @ decodeAll step d (c @ concat cs)) =
      remainder (remainder (buffer @ t1) @ decodeAll step d1 (concat cs))"
    unfolding whole using remainder_append [of "buffer @ t1"] by simp
  have fr: "framedLines (buffer @ decodeAll step d (c @ concat cs)) =
      terminatedLines (buffer @ t1) @ framedLines (remainder (buffer @ t1) @ decodeAll step d1 (concat cs))"
    by (simp add: framedLines_def tl rm)
  have free: "newline \<notin> set (remainder (buffer @ t1))"
    unfolding remainder_def by (rule remainder_no_newline) simp
  have unfold: "readLoop h step (c # cs) Done d buffer s =
      (case drainLines h (buffer @ t1) s of
         Normal (s1, buffer1) \<Rightarrow> readLoop h step cs Done d1 buffer1 s1
       | Throws e (s1, buffer1) \<Rightarrow> Throws e s1
       | IllTyped \<Rightarrow> IllTyped)"
    by (simp add: dec)
  have spec: "dispatchAll h (framedLines (buffer @ decodeAll step d (concat (c # cs)))) s =
      andThen (dispatchAll h (terminatedLines (buffer @ t1)) s)
        (dispatchAll h (framedLines (remainder (buffer @ t1) @ decodeAll step d1 (concat cs))))"
    by (simp add: fr dispatchAll_append)
  show ?case
  proof (cases "drainLines h (buffer @ t1) s")
    case (Normal p)
    obtain s1 b1 where p: "p = (s1, b1)" by (cases p)
    have b1: "b1 = remainder (buffer @ t1)"
      by (rule drainLines_buffer [of h "buffer @ t1" s s1 b1]) (simp add: Normal p)
    from drainLines_dispatches [of h "buffer @ t1" s] Normal p
    have d: "dispatchAll h (terminatedLines (buffer @ t1)) s = Normal s1" by simp
    have "readLoop h step (c # cs) Done d buffer s =
        readLoop h step cs Done d1 (remainder (buffer @ t1)) s1"
      unfolding unfold Normal p b1 by simp
    also have "\<dots> = dispatchAll h (framedLines (remainder (buffer @ t1) @ decodeAll step d1 (concat cs))) s1"
      by (rule Cons.IH [OF free])
    finally show ?thesis unfolding spec d by simp
  next
    case (Throws e p)
    obtain s1 b1 where p: "p = (s1, b1)" by (cases p)
    from drainLines_dispatches [of h "buffer @ t1" s] Throws p
    have d: "dispatchAll h (terminatedLines (buffer @ t1)) s = Throws e s1" by simp
    show ?thesis unfolding unfold spec d Throws p by simp
  next
    case IllTyped
    from drainLines_dispatches [of h "buffer @ t1" s] IllTyped
    have d: "dispatchAll h (terminatedLines (buffer @ t1)) s = IllTyped" by simp
    show ?thesis unfolding unfold spec d IllTyped by simp
  qed
qed

lemma readLoop_Rejects:
  "newline \<notin> set buffer \<Longrightarrow>
   readLoop h step chunks (ReadRejects e) d buffer s =
     andThen (dispatchAll h (terminatedLines (buffer @ decodeAll step d (concat chunks))) s)
       (Throws e)"
proof (induction chunks arbitrary: d buffer s)
  case Nil
  then show ?case
    by (simp add: decodeAll_def terminatedLines_def splitLines_no_newline)
next
  case (Cons c cs)
  obtain d1 t1 where dec: "decode step c d = (d1, t1)" by (cases "decode step c d")
  have whole: "decodeAll step d (c @ concat cs) = t1 @ decodeAll step d1 (concat cs)"
    by (simp add: decodeAll_def decode_append dec split: prod.splits)
  have tl: "terminatedLines (buffer @ decodeAll step d (c @ concat cs)) =
      terminatedLines (buffer @ t1) @ terminatedLines (remainder (buffer @ t1) @ decodeAll step d1 (concat cs))"
    unfolding whole using terminatedLines_append [of "buffer @ t1"] by simp
  have free: "newline \<notin> set (remainder (buffer @ t1))"
    unfolding remainder_def by (rule remainder_no_newline) simp
  have unfold: "readLoop h step (c # cs) (ReadRejects e) d buffer s =
      (case drainLines h (buffer @ t1) s of
         Normal (s1, buffer1) \<Rightarrow> readLoop h step cs (ReadRejects e) d1 buffer1 s1
       | Throws e (s1, buffer1) \<Rightarrow> Throws e s1
       | IllTyped \<Rightarrow> IllTyped)"
    by (simp add: dec)
  have spec: "andThen (dispatchAll h (terminatedLines (buffer @ decodeAll step d (concat (c # cs)))) s) (Throws e) =
      andThen (dispatchAll h (terminatedLines (buffer @ t1)) s)
        (\<lambda>a. andThen (dispatchAll h (terminatedLines (remainder (buffer @ t1) @ decodeAll step d1 (concat cs))) a) (Throws e))"
    by (simp add: tl dispatchAll_append andThen_assoc)
  show ?case
  proof (cases "drainLines h (buffer @ t1) s")
    case (Normal p)
    obtain s1 b1 where p: "p = (s1, b1)" by (cases p)
    have b1: "b1 = remainder (buffer @ t1)"
      by (rule drainLines_buffer [of h "buffer @ t1" s s1 b1]) (simp add: Normal p)
    from drainLines_dispatches [of h "buffer @ t1" s] Normal p
    have d: "dispatchAll h (terminatedLines (buffer @ t1)) s = Normal s1" by simp
    have "readLoop h step (c # cs) (ReadRejects e) d buffer s =
        readLoop h step cs (ReadRejects e) d1 (remainder (buffer @ t1)) s1"
      unfolding unfold Normal p b1 by simp
    also have "\<dots> = andThen (dispatchAll h (terminatedLines (remainder (buffer @ t1) @ decodeAll step d1 (concat cs))) s1) (Throws e)"
      by (rule Cons.IH [OF free])
    finally show ?thesis unfolding spec d by simp
  next
    case (Throws e' p)
    obtain s1 b1 where p: "p = (s1, b1)" by (cases p)
    from drainLines_dispatches [of h "buffer @ t1" s] Throws p
    have d: "dispatchAll h (terminatedLines (buffer @ t1)) s = Throws e' s1" by simp
    show ?thesis unfolding unfold spec d Throws p by simp
  next
    case IllTyped
    from drainLines_dispatches [of h "buffer @ t1" s] IllTyped
    have d: "dispatchAll h (terminatedLines (buffer @ t1)) s = IllTyped" by simp
    show ?thesis unfolding unfold spec d IllTyped by simp
  qed
qed

lemma processLine_blank: "trim l = [] \<Longrightarrow> processLine P l s = Normal s"
  by (simp add: processLine_def)

lemma dispatchAll_skip:
  assumes "\<And>l s. \<not> keep l \<Longrightarrow> h l s = Normal s"
  shows "dispatchAll h (filter keep ls) s = dispatchAll h ls s"
proof (induction ls arbitrary: s)
  case Nil
  show ?case by simp
next
  case (Cons l ls)
  show ?case
  proof (cases "keep l")
    case True
    then show ?thesis by (cases "h l s") (simp_all add: Cons.IH)
  next
    case False
    then show ?thesis by (simp add: assms Cons.IH)
  qed
qed

lemma dispatch_events:
  "dispatchAll (processLine P) (framedLines t) r = dispatchAll (processLine P) (eventLines t) r"
proof -
  have skip: "dispatchAll (processLine P) (filter (\<lambda>l. trim l \<noteq> []) ls) r = dispatchAll (processLine P) ls r" for ls
    by (rule dispatchAll_skip) (simp add: processLine_blank)
  show ?thesis
  proof (cases "trim (remainder t) = []")
    case True
    have "dispatchAll (processLine P) (terminatedLines t @ [remainder t]) r =
          dispatchAll (processLine P) (terminatedLines t) r"
      by (cases "dispatchAll (processLine P) (terminatedLines t) r")
         (simp_all add: dispatchAll_append processLine_blank [OF True])
    with True show ?thesis unfolding eventLines_def skip by (simp add: framedLines_def)
  next
    case False
    then show ?thesis unfolding eventLines_def skip by (simp add: framedLines_def)
  qed
qed


text \<open>
  C1. For every byte stream and every way of splitting it into chunks, the reader
  loop dispatches the same lines: whatever method \<open>h\<close> it calls, it calls it on the
  lines the newlines of the whole decoded text end, in their order, and then on the
  remainder if that is not blank; with \<open>processLine\<close>, which returns at once on a
  blank line, the effect is that of the lines that are not blank after trimming. The
  right-hand sides read the concatenation of the chunks only, so no line is dropped
  or merged where a chunk ends.
\<close>

theorem framing_chunk_independent:
  "readLoop h step chunks Done d0 [] s =
     dispatchAll h (framedLines (decodeAll step d0 (concat chunks))) s \<and>
   readLoop (processLine P) step chunks Done d0 [] r =
     dispatchAll (processLine P) (eventLines (decodeAll step d0 (concat chunks))) r"
  using readLoop_Done [of "[]" h step chunks d0 s] readLoop_Done [of "[]" "processLine P" step chunks d0 r]
  by (simp add: dispatch_events)

text \<open>
  The bytes of \<open>H\<close>, \<open>e\<close> with an acute accent (two bytes), two newlines and \<open>A\<close>, in
  three chunks that cut the accented letter in two, and in one chunk: the same three
  lines are handed over, the blank one among them.
\<close>

theorem framing_chunk_independent_witness:
  "readLoop (\<lambda>l acc. Normal (acc @ [l])) utf8Step
     [[0x48, 0xC3], [0xA9, 0x0A, 0x0A], [0x41]] Done utf8Start [] [] =
     Normal [[0x48, 0xE9], [], [0x41]] \<and>
   readLoop (\<lambda>l acc. Normal (acc @ [l])) utf8Step
     [[0x48, 0xC3, 0xA9, 0x0A, 0x0A, 0x41]] Done utf8Start [] [] =
     Normal [[0x48, 0xE9], [], [0x41]]"
proof -
  have t: "decodeAll utf8Step utf8Start [0x48, 0xC3, 0xA9, 0x0A, 0x0A, 0x41] = [0x48, 0xE9, 0x0A, 0x0A, 0x41]"
    by (simp add: decodeAll_def utf8Step_def utf8Start_def utf8Lead_def emitCodePoint_def utf16_def Let_def)
  have f: "framedLines [0x48, 0xE9, 0x0A, 0x0A, 0x41] = [[0x48, 0xE9], [], [0x41]]"
    by (simp add: framedLines_def terminatedLines_def remainder_def newline_def trim_def isWhiteSpace_def)
  from framing_chunk_independent [of "\<lambda>l acc. Normal (acc @ [l])" utf8Step
      "[[0x48, 0xC3], [0xA9, 0x0A, 0x0A], [0x41]]" utf8Start "[]"]
    framing_chunk_independent [of "\<lambda>l acc. Normal (acc @ [l])" utf8Step
      "[[0x48, 0xC3, 0xA9, 0x0A, 0x0A, 0x41]]" utf8Start "[]"]
  show ?thesis by (simp add: t f)
qed

section \<open>Events that change nothing\<close>


text \<open>
  C10. A \<open>text-delta\<close> event whose \<open>delta\<close> and \<open>textDelta\<close> are both absent or empty
  (or hold any other value that counts as false) is dropped: \<open>processLine\<close> returns
  the session as it was, so no message is opened or touched, the snapshot is the same
  and no listener is called.
\<close>

theorem text_delta_empty_dropped:
  assumes "JSON_parse P (trim rawLine) = Some event"
    and "getProp event (js ''type'') = Some (JStr (js ''text-delta''))"
    and "\<not> truthy (getProp event (js ''delta''))"
    and "\<not> truthy (getProp event (js ''textDelta''))"
  shows "processLine P rawLine s = Normal s"
proof -
  from assms(2) have "event \<noteq> JNull" by auto
  then show ?thesis
    using assms by (cases event) (simp_all add: processLine_def Let_def js_or_def)
qed

text \<open>The line \<open>{"type":"text-delta","delta":""}\<close> on a session with a listener.\<close>

theorem text_delta_empty_dropped_witness:
  \<open>processLine refPlatform (js ''{"type":"text-delta","delta":""} '') demoSession = Normal demoSession\<close>
proof (rule text_delta_empty_dropped)
  show \<open>JSON_parse refPlatform (trim (js ''{"type":"text-delta","delta":""} '')) =
      Some (JObj [(js ''type'', JStr (js ''text-delta'')), (js ''delta'', JStr [])])\<close>
    by (simp add: readJson_simps)
  show "getProp (JObj [(js ''type'', JStr (js ''text-delta'')), (js ''delta'', JStr [])]) (js ''type'') =
      Some (JStr (js ''text-delta''))"
    by (simp add: js_def)
  show "\<not> truthy (getProp (JObj [(js ''type'', JStr (js ''text-delta'')), (js ''delta'', JStr [])]) (js ''delta''))"
    by (simp add: js_def)
  show "\<not> truthy (getProp (JObj [(js ''type'', JStr (js ''text-delta'')), (js ''delta'', JStr [])]) (js ''textDelta''))"
    by (simp add: js_def)
qed

text \<open>
  C9. A \<open>screenshot-update\<close> event processed while \<open>activeScreenshotToolId\<close> is unset,
  or whose \<open>screenshot\<close> is missing (or counts as false), is ignored: \<open>processLine\<close>
  returns the session as it was, with its snapshot, its messages, its correlation
  state and its record of notified listeners.
\<close>

theorem screenshot_update_ignored:
  assumes "JSON_parse P (trim rawLine) = Some event"
    and "getProp event (js ''type'') = Some (JStr (js ''screenshot-update''))"
    and "unset (activeScreenshotToolId s) \<or> \<not> truthy (getProp event (js ''screenshot''))"
  shows "processLine P rawLine s = Normal s"
proof -
  from assms(2) have "event \<noteq> JNull" by auto
  then show ?thesis
    using assms by (cases event) (auto simp add: processLine_def Let_def js_def split: option.splits)
qed

text \<open>A screenshot that arrives before any tool call, on a session with a listener.\<close>

theorem screenshot_update_ignored_witness:
  \<open>processLine refPlatform (js ''{"type":"screenshot-update","screenshot":"iVBOR"}'') demoSession =
     Normal demoSession\<close>
proof (rule screenshot_update_ignored)
  show \<open>JSON_parse refPlatform (trim (js ''{"type":"screenshot-update","screenshot":"iVBOR"}'')) =
      Some (JObj [(js ''type'', JStr (js ''screenshot-update'')), (js ''screenshot'', JStr (js ''iVBOR''))])\<close>
    by (simp add: readJson_simps)
  show "getProp (JObj [(js ''type'', JStr (js ''screenshot-update'')), (js ''screenshot'', JStr (js ''iVBOR''))])
      (js ''type'') = Some (JStr (js ''screenshot-update''))"
    by (simp add: js_def)
  show "unset (activeScreenshotToolId demoSession) \<or>
      \<not> truthy (getProp (JObj [(js ''type'', JStr (js ''screenshot-update'')),
         (js ''screenshot'', JStr (js ''iVBOR''))]) (js ''screenshot''))"
    by (simp add: demoSession_def newSession_def subscribe_def)
qed

section \<open>Lines and the transcript\<close>

lemma isEvent_He:
  \<open>isEvent refPlatform (js ''{"type":"text-delta","delta":"He"}'') ''text-delta''
     (JObj [(js ''type'', JStr (js ''text-delta'')), (js ''delta'', JStr (js ''He''))])\<close>
  by (simp add: isEvent_def readJson_simps)

lemma isEvent_llo:
  \<open>isEvent refPlatform (js ''{"type":"text-delta","delta":"llo"}'') ''text-delta''
     (JObj [(js ''type'', JStr (js ''text-delta'')), (js ''delta'', JStr (js ''llo''))])\<close>
  by (simp add: isEvent_def readJson_simps)

text \<open>
  C7. A framed line that fails to parse as JSON is discarded: \<open>processLine\<close> returns
  the session as it was (it does not throw, so the stream goes on, and the error
  callback is not called), and a sequence of lines with such a line in it has the
  effect of the sequence without it.
\<close>

theorem malformed_line_discarded:
  assumes "JSON_parse P (trim bad) = None"
  shows "processLine P bad s = Normal s \<and>
         dispatchAll (processLine P) (before @ bad # after) s =
           dispatchAll (processLine P) (before @ after) s"
proof -
  have skip: "processLine P bad r = Normal r" for r
    using assms by (simp add: processLine_def Let_def)
  have "dispatchAll (processLine P) (before @ bad # after) s =
        dispatchAll (processLine P) (before @ after) s"
    by (cases "dispatchAll (processLine P) before s") (simp_all add: dispatchAll_append skip)
  with skip show ?thesis by simp
qed

text \<open>A line cut short between the two halves of \<open>Hello\<close>.\<close>

theorem malformed_line_discarded_witness:
  \<open>dispatchAll (processLine refPlatform)
     [js ''{"type":"text-delta","delta":"He"}'', js ''{"type":"text-delta",'',
      js ''{"type":"text-delta","delta":"llo"}''] readySession =
   dispatchAll (processLine refPlatform)
     [js ''{"type":"text-delta","delta":"He"}'', js ''{"type":"text-delta","delta":"llo"}'']
     readySession\<close>
proof -
  have bad: \<open>JSON_parse refPlatform (trim (js ''{"type":"text-delta",'')) = None\<close>
    by (simp add: readJson_simps)
  from malformed_line_discarded [OF bad, of readySession \<open>[js ''{"type":"text-delta","delta":"He"}'']\<close>
      \<open>[js ''{"type":"text-delta","delta":"llo"}'']\<close>]
  show ?thesis by simp
qed

text \<open>
  C4. Two lines that parse to \<open>text-delta\<close> events with the deltas \<open>He\<close> and \<open>llo\<close>,
  processed while no text accumulation is open, add exactly one message to the
  transcript: it is the last one, an assistant message with the content \<open>Hello\<close> and
  a newly made id. The messages before it are as many as before, and they are the
  same ones when none of them has that id (the second delta is appended to every
  message that has the id of the open one).
\<close>

theorem two_deltas_one_message:
  assumes first: "isEvent P l1 ''text-delta'' e1" "getProp e1 (js ''delta'') = Some (JStr (js ''He''))"
    and second: "isEvent P l2 ''text-delta'' e2" "getProp e2 (js ''delta'') = Some (JStr (js ''llo''))"
    and closed: "unset (currentTextId s)"
  shows "\<exists>s' old. dispatchAll (processLine P) [l1, l2] s = Normal s' \<and>
           messages (snapshot s') = old @
             [\<lparr>idM = js ''assistant-'' @ dateNow s (nowReads s) @ js ''-'' @ mathRandom s (randomReads s),
               role = Assistant, content = Some (js ''Hello''), parts = None\<rparr>] \<and>
           length old = length (messages (snapshot s)) \<and>
           ((\<forall>m \<in> set (messages (snapshot s)). idM m \<noteq>
               js ''assistant-'' @ dateNow s (nowReads s) @ js ''-'' @ mathRandom s (randomReads s))
              \<longrightarrow> old = messages (snapshot s))"
proof -
  let ?i = "js ''assistant-'' @ dateNow s (nowReads s) @ js ''-'' @ mathRandom s (randomReads s)"
  let ?s1 = "handleTextDelta (js ''He'') s"
  have p1: "processLine P l1 s = Normal ?s1"
    by (rule processLine_delta [OF first]) (simp add: js_def)
  have p2: "processLine P l2 ?s1 = Normal (handleTextDelta (js ''llo'') ?s1)"
    by (rule processLine_delta [OF second]) (simp add: js_def)
  have m1: "messages (snapshot ?s1) = messages (snapshot s) @
      [\<lparr>idM = ?i, role = Assistant, content = Some (js ''He''), parts = None\<rparr>]"
    using closed by (simp add: handleTextDelta_def Let_def)
  have c1: "currentTextId ?s1 = Some ?i"
    using closed by (simp add: handleTextDelta_def Let_def replaceMessages_def updateSnapshot_def emit_def)
  have open1: "\<not> unset (currentTextId ?s1)"
    unfolding c1 by (simp add: js_def)
  let ?f = "\<lambda>message. if Some (idM message) \<noteq> Some ?i then message
      else message\<lparr>content := Some ((case content message of None \<Rightarrow> [] | Some c \<Rightarrow> c) @ js ''llo'')\<rparr>"
  have m2: "messages (snapshot (handleTextDelta (js ''llo'') ?s1)) = map ?f (messages (snapshot ?s1))"
    using open1 by (simp add: handleTextDelta_def [of _ ?s1] c1 Let_def)
  have hello: "js ''He'' @ js ''llo'' = js ''Hello''"
    by (simp add: js_def)
  have m3: "messages (snapshot (handleTextDelta (js ''llo'') ?s1)) = map ?f (messages (snapshot s)) @
      [\<lparr>idM = ?i, role = Assistant, content = Some (js ''Hello''), parts = None\<rparr>]"
    unfolding m2 m1 by (simp add: hello)
  have fresh: "map ?f (messages (snapshot s)) = messages (snapshot s)"
    if new: "\<forall>m \<in> set (messages (snapshot s)). idM m \<noteq> ?i"
  proof (rule map_idI)
    fix x assume "x \<in> set (messages (snapshot s))"
    with new have "idM x \<noteq> ?i" by simp
    then show "?f x = x" by simp
  qed
  show ?thesis
    apply (rule exI [of _ "handleTextDelta (js ''llo'') ?s1"])
    apply (rule exI [of _ "map ?f (messages (snapshot s))"])
    using fresh by (simp add: p1 p2 m3)
qed

text \<open>The two lines of the specification, on a session with an empty transcript.\<close>

theorem two_deltas_one_message_witness:
  \<open>\<exists>s'. dispatchAll (processLine refPlatform)
          [js ''{"type":"text-delta","delta":"He"}'', js ''{"type":"text-delta","delta":"llo"}'']
          readySession = Normal s' \<and>
        messages (snapshot s') =
          [\<lparr>idM = js ''assistant-1700000000000-0.1'', role = Assistant,
            content = Some (js ''Hello''), parts = None\<rparr>]\<close>
proof -
  have closed: "unset (currentTextId readySession)"
    by (simp add: session_simps)
  from two_deltas_one_message [OF isEvent_He _ isEvent_llo _ closed]
  obtain s' old where run: \<open>dispatchAll (processLine refPlatform)
          [js ''{"type":"text-delta","delta":"He"}'', js ''{"type":"text-delta","delta":"llo"}'']
          readySession = Normal s'\<close>
    and msgs: "messages (snapshot s') = old @
             [\<lparr>idM = js ''assistant-'' @ dateNow readySession (nowReads readySession) @ js ''-'' @
                    mathRandom readySession (randomReads readySession),
               role = Assistant, content = Some (js ''Hello''), parts = None\<rparr>]"
    and len: "length old = length (messages (snapshot readySession))"
    by (auto simp add: js_def)
  from len have "old = []" by (simp add: session_simps)
  moreover have "js ''assistant-'' @ dateNow readySession (nowReads readySession) @ js ''-'' @
                    mathRandom readySession (randomReads readySession) = js ''assistant-1700000000000-0.1''"
    by (simp add: session_simps writeNat.simps js_def)
  ultimately show ?thesis using run msgs by simp
qed

section \<open>Tool invocations\<close>

lemma concat_filter_nonempty:
  "concat (map f (filter (\<lambda>m. f m \<noteq> []) ms)) = concat (map f ms)"
  by (induction ms) simp_all

lemma invocations_toolMessages:
  "concat (map (invocationsOf tc) ms) = concat (map (invocationsOf tc) (toolMessages tc ms))"
  by (simp add: toolMessages_def concat_filter_nonempty)

lemma toolState_unseen:
  "toolMessages tc (messages (snapshot s)) = [] \<Longrightarrow> toolState tc s = []"
  by (simp add: toolState_def invocations_toolMessages [of tc "messages (snapshot s)"])

lemma toolState_single:
  "toolMessages tc (messages (snapshot s)) = [m] \<Longrightarrow> invocationsOf tc m = [ti] \<Longrightarrow>
   toolState tc s = [state ti]"
  by (simp add: toolState_def invocations_toolMessages [of tc "messages (snapshot s)"])

lemma toolCallId_mergeInvocation [simp]: "toolCallId (mergeInvocation ti u st) = toolCallId ti"
  by (simp add: mergeInvocation_def)

lemma state_mergeInvocation [simp]: "state (mergeInvocation ti u st) = st"
  by (simp add: mergeInvocation_def)

lemma invocationsIn_updatePart_same:
  "invocationsIn tc (map (updatePart tc st u) ps) =
     map (\<lambda>ti. mergeInvocation ti u st) (invocationsIn tc ps)"
proof (induction ps)
  case Nil
  show ?case by simp
next
  case (Cons p ps)
  then show ?case by (cases p) simp_all
qed

lemma invocationsIn_updatePart_other:
  "tc' \<noteq> tc \<Longrightarrow> invocationsIn tc' (map (updatePart tc st u) ps) = invocationsIn tc' ps"
proof (induction ps)
  case Nil
  show ?case by simp
next
  case (Cons p ps)
  then show ?case by (cases p) simp_all
qed

lemma invocationsIn_updatePart:
  "invocationsIn tc' (map (updatePart tc st u) ps) =
     (if tc' = tc then map (\<lambda>ti. mergeInvocation ti u st) (invocationsIn tc ps)
      else invocationsIn tc' ps)"
  by (simp add: invocationsIn_updatePart_same invocationsIn_updatePart_other)

lemma idM_updateMessage [simp]: "idM (updateMessage mid tc st u m) = idM m"
  by (simp add: updateMessage_def split: option.splits)

lemma invocationsOf_updateMessage:
  "invocationsOf tc' (updateMessage mid tc st u m) =
     (if tc' = tc \<and> idM m = mid then map (\<lambda>ti. mergeInvocation ti u st) (invocationsOf tc m)
      else invocationsOf tc' m)"
  by (simp add: invocationsOf_def updateMessage_def invocationsIn_updatePart split: option.splits)

lemma invocationsOf_updateMessage_empty:
  "invocationsOf tc' (updateMessage mid tc st u m) = [] \<longleftrightarrow> invocationsOf tc' m = []"
  by (simp add: invocationsOf_updateMessage)

lemma toolMessages_updateMessage:
  "toolMessages tc' (map (updateMessage mid tc st u) ms) =
     map (updateMessage mid tc st u) (toolMessages tc' ms)"
  by (induction ms) (simp_all add: toolMessages_def invocationsOf_updateMessage_empty)

lemma toolMessages_append:
  "toolMessages tc (ms @ [m]) = toolMessages tc ms @ (if invocationsOf tc m = [] then [] else [m])"
  by (simp add: toolMessages_def)

lemma toolMessages_same_parts:
  assumes "\<And>m. parts (f m) = parts m"
  shows "toolMessages tc (map f ms) = map f (toolMessages tc ms)"
  by (induction ms) (simp_all add: toolMessages_def invocationsOf_def assms)

lemma correlatedFor_cong:
  assumes "toolMessageMap s' tc = toolMessageMap s tc"
    and "messages (snapshot s') = messages (snapshot s)"
  shows "correlatedFor tc s' = correlatedFor tc s"
  by (simp add: correlatedFor_def assms)

lemma toolState_cong:
  "messages (snapshot s') = messages (snapshot s) \<Longrightarrow> toolState tc s' = toolState tc s"
  by (simp add: toolState_def)

lemma correlatedFor_state:
  assumes "correlatedFor tc s"
  shows "toolState tc s = [] \<or> toolState tc s = [Call] \<or> toolState tc s = [Result]"
proof (cases "unset (toolMessageMap s tc)")
  case True
  with assms show ?thesis by (simp add: correlatedFor_def toolState_unseen)
next
  case False
  with assms obtain m ti where "toolMessages tc (messages (snapshot s)) = [m]"
    "invocationsOf tc m = [ti]" "state ti \<noteq> Streaming"
    by (auto simp add: correlatedFor_def)
  then show ?thesis
    by (cases "state ti") (simp_all add: toolState_single)
qed

text \<open>handleToolEvent on an id the map does not know\<close>

lemma handleToolEvent_new:
  assumes "unset (toolMessageMap s tc)"
  shows "messages (snapshot (handleToolEvent tc st u s)) = messages (snapshot s) @
           [\<lparr>idM = js ''tool-'' @ tc @ js ''-'' @ dateNow s (nowReads s), role = Assistant,
             content = Some [],
             parts = Some [ToolInvocationPart
               \<lparr>toolCallId = tc, toolName = readKey (u_toolName u), state = st,
                args = readKey (u_args u), argsText = readKey (u_argsText u),
                result = readKey (u_result u)\<rparr>]\<rparr>]"
    and "toolMessageMap (handleToolEvent tc st u s) =
           (toolMessageMap s)(tc \<mapsto> js ''tool-'' @ tc @ js ''-'' @ dateNow s (nowReads s))"
  using assms by (simp_all add: handleToolEvent_def Let_def)

lemma handleToolEvent_seen:
  assumes "toolMessageMap s tc = Some mid" and "mid \<noteq> []"
  shows "messages (snapshot (handleToolEvent tc st u s)) =
           map (updateMessage mid tc st u) (messages (snapshot s))"
    and "toolMessageMap (handleToolEvent tc st u s) = toolMessageMap s"
  using assms by (simp_all add: handleToolEvent_def Let_def)

lemma tool_id_nonempty [simp]: "js ''tool-'' @ x \<noteq> []"
  by (simp add: js_def)

lemma handleToolEvent_correlated_same:
  assumes inv: "correlatedFor tc s" and st: "st \<noteq> Streaming"
  shows "correlatedFor tc (handleToolEvent tc st u s) \<and> toolState tc (handleToolEvent tc st u s) = [st]"
proof (cases "unset (toolMessageMap s tc)")
  case True
  let ?m = "\<lparr>idM = js ''tool-'' @ tc @ js ''-'' @ dateNow s (nowReads s), role = Assistant,
             content = Some [],
             parts = Some [ToolInvocationPart
               \<lparr>toolCallId = tc, toolName = readKey (u_toolName u), state = st,
                args = readKey (u_args u), argsText = readKey (u_argsText u),
                result = readKey (u_result u)\<rparr>]\<rparr>"
  from inv True have none: "toolMessages tc (messages (snapshot s)) = []"
    by (simp add: correlatedFor_def)
  have one: "invocationsOf tc ?m = [\<lparr>toolCallId = tc, toolName = readKey (u_toolName u), state = st,
                args = readKey (u_args u), argsText = readKey (u_argsText u),
                result = readKey (u_result u)\<rparr>]"
    by (simp add: invocationsOf_def)
  have tm: "toolMessages tc (messages (snapshot (handleToolEvent tc st u s))) = [?m]"
    unfolding handleToolEvent_new(1) [OF True] toolMessages_append none one by simp
  have "correlatedFor tc (handleToolEvent tc st u s)"
    unfolding correlatedFor_def tm handleToolEvent_new(2) [OF True]
    using st one by (simp add: js_def)
  moreover have "toolState tc (handleToolEvent tc st u s) = [st]"
    using toolState_single [OF tm one] by simp
  ultimately show ?thesis by simp
next
  case False
  then obtain mid where mid: "toolMessageMap s tc = Some mid" "mid \<noteq> []"
    by (cases "toolMessageMap s tc") auto
  from inv False mid obtain m ti where m: "toolMessages tc (messages (snapshot s)) = [m]"
    "idM m = mid" "invocationsOf tc m = [ti]"
    by (auto simp add: correlatedFor_def)
  let ?m = "updateMessage mid tc st u m"
  have tm: "toolMessages tc (messages (snapshot (handleToolEvent tc st u s))) = [?m]"
    unfolding handleToolEvent_seen(1) [OF mid] toolMessages_updateMessage m by simp
  have one: "invocationsOf tc ?m = [mergeInvocation ti u st]"
    by (simp add: invocationsOf_updateMessage m)
  have "correlatedFor tc (handleToolEvent tc st u s)"
    unfolding correlatedFor_def tm handleToolEvent_seen(2) [OF mid]
    using st one mid m by simp
  moreover have "toolState tc (handleToolEvent tc st u s) = [st]"
    using toolState_single [OF tm one] by simp
  ultimately show ?thesis by simp
qed

lemma handleToolEvent_correlated_other:
  assumes inv: "correlatedFor tc' s" and other: "tc' \<noteq> tc"
  shows "correlatedFor tc' (handleToolEvent tc st u s) \<and>
         toolState tc' (handleToolEvent tc st u s) = toolState tc' s"
proof (cases "unset (toolMessageMap s tc)")
  case True
  let ?m = "\<lparr>idM = js ''tool-'' @ tc @ js ''-'' @ dateNow s (nowReads s), role = Assistant,
             content = Some [],
             parts = Some [ToolInvocationPart
               \<lparr>toolCallId = tc, toolName = readKey (u_toolName u), state = st,
                args = readKey (u_args u), argsText = readKey (u_argsText u),
                result = readKey (u_result u)\<rparr>]\<rparr>"
  have none: "invocationsOf tc' ?m = []"
    using other by (simp add: invocationsOf_def)
  have tm: "toolMessages tc' (messages (snapshot (handleToolEvent tc st u s))) =
      toolMessages tc' (messages (snapshot s))"
    unfolding handleToolEvent_new(1) [OF True] toolMessages_append none by simp
  have mp: "toolMessageMap (handleToolEvent tc st u s) tc' = toolMessageMap s tc'"
    unfolding handleToolEvent_new(2) [OF True] using other by simp
  have "correlatedFor tc' (handleToolEvent tc st u s)"
    using inv unfolding correlatedFor_def tm mp by simp
  moreover have "toolState tc' (handleToolEvent tc st u s) = toolState tc' s"
    unfolding toolState_def handleToolEvent_new(1) [OF True] using none by simp
  ultimately show ?thesis by simp
next
  case False
  then obtain mid where mid: "toolMessageMap s tc = Some mid" "mid \<noteq> []"
    by (cases "toolMessageMap s tc") auto
  have same: "invocationsOf tc' (updateMessage mid tc st u m) = invocationsOf tc' m" for m
    using other by (simp add: invocationsOf_updateMessage)
  have tm: "toolMessages tc' (messages (snapshot (handleToolEvent tc st u s))) =
      map (updateMessage mid tc st u) (toolMessages tc' (messages (snapshot s)))"
    unfolding handleToolEvent_seen(1) [OF mid] toolMessages_updateMessage by simp
  have "correlatedFor tc' (handleToolEvent tc st u s)"
  proof (cases "unset (toolMessageMap s tc')")
    case True
    with inv show ?thesis
      unfolding correlatedFor_def tm handleToolEvent_seen(2) [OF mid] by simp
  next
    case False
    with inv obtain m ti where m: "toolMessages tc' (messages (snapshot s)) = [m]"
      "toolMessageMap s tc' = Some (idM m)" "invocationsOf tc' m = [ti]" "state ti \<noteq> Streaming"
      by (auto simp add: correlatedFor_def)
    show ?thesis
      unfolding correlatedFor_def tm handleToolEvent_seen(2) [OF mid]
      using False m by (simp add: same)
  qed
  moreover have "toolState tc' (handleToolEvent tc st u s) = toolState tc' s"
    unfolding toolState_def handleToolEvent_seen(1) [OF mid]
    by (simp add: same comp_def)
  ultimately show ?thesis by simp
qed

lemma handleTextDelta_correlated:
  assumes inv: "correlatedFor tc s"
  shows "correlatedFor tc (handleTextDelta d s) \<and> toolState tc (handleTextDelta d s) = toolState tc s"
proof (cases "unset (currentTextId s)")
  case True
  let ?m = "\<lparr>idM = js ''assistant-'' @ dateNow s (nowReads s) @ js ''-'' @ mathRandom s (randomReads s),
             role = Assistant, content = Some d, parts = None\<rparr>"
  have ms: "messages (snapshot (handleTextDelta d s)) = messages (snapshot s) @ [?m]"
    using True by (simp add: handleTextDelta_def Let_def)
  have mp: "toolMessageMap (handleTextDelta d s) = toolMessageMap s"
    using True by (simp add: handleTextDelta_def Let_def)
  have none: "invocationsOf tc ?m = []"
    by (simp add: invocationsOf_def)
  have "correlatedFor tc (handleTextDelta d s)"
    using inv unfolding correlatedFor_def ms mp toolMessages_append none by (auto split: if_splits)
  moreover have "toolState tc (handleTextDelta d s) = toolState tc s"
    unfolding toolState_def ms using none by simp
  ultimately show ?thesis by simp
next
  case False
  let ?f = "\<lambda>message. if Some (idM message) \<noteq> currentTextId s then message
      else message\<lparr>content := Some ((case content message of None \<Rightarrow> [] | Some c \<Rightarrow> c) @ d)\<rparr>"
  have ms: "messages (snapshot (handleTextDelta d s)) = map ?f (messages (snapshot s))"
    using False by (simp add: handleTextDelta_def Let_def)
  have mp: "toolMessageMap (handleTextDelta d s) = toolMessageMap s"
    using False by (simp add: handleTextDelta_def Let_def)
  have keep: "parts (?f m) = parts m" "idM (?f m) = idM m" for m
    by simp_all
  have same: "invocationsOf tc (?f m) = invocationsOf tc m" for m
    by (simp add: invocationsOf_def)
  have tm: "toolMessages tc (map ?f (messages (snapshot s))) = map ?f (toolMessages tc (messages (snapshot s)))"
    by (rule toolMessages_same_parts) simp
  have "correlatedFor tc (handleTextDelta d s)"
  proof (cases "unset (toolMessageMap s tc)")
    case True
    with inv show ?thesis unfolding correlatedFor_def ms mp tm by simp
  next
    case False
    with inv obtain m ti where m: "toolMessages tc (messages (snapshot s)) = [m]"
      "toolMessageMap s tc = Some (idM m)" "invocationsOf tc m = [ti]" "state ti \<noteq> Streaming"
      by (auto simp add: correlatedFor_def)
    have "invocationsOf tc (?f m) = [ti]"
      unfolding same m by simp
    then show ?thesis
      unfolding correlatedFor_def ms mp tm using False m by simp
  qed
  moreover have "toolState tc (handleTextDelta d s) = toolState tc s"
    unfolding toolState_def ms by (simp add: same comp_def)
  ultimately show ?thesis by simp
qed

lemma result_mergeInvocation [simp]:
  "result (mergeInvocation ti \<lparr>u_toolName = n, u_args = a, u_argsText = x, u_result = Some r\<rparr> st) = r"
  by (simp add: mergeInvocation_def)

lemma handleToolEvent_result:
  assumes inv: "correlatedFor tc s"
  shows "\<exists>m ti. toolMessages tc (messages (snapshot
            (handleToolEvent tc st \<lparr>u_toolName = n, u_args = a, u_argsText = x, u_result = Some r\<rparr> s))) = [m] \<and>
          invocationsOf tc m = [ti] \<and> state ti = st \<and> result ti = r"
proof (cases "unset (toolMessageMap s tc)")
  case True
  let ?u = "\<lparr>u_toolName = n, u_args = a, u_argsText = x, u_result = Some r\<rparr>"
  let ?ti = "\<lparr>toolCallId = tc, toolName = readKey (u_toolName ?u), state = st,
                args = readKey (u_args ?u), argsText = readKey (u_argsText ?u),
                result = readKey (u_result ?u)\<rparr>"
  let ?m = "\<lparr>idM = js ''tool-'' @ tc @ js ''-'' @ dateNow s (nowReads s), role = Assistant,
             content = Some [], parts = Some [ToolInvocationPart ?ti]\<rparr>"
  from inv True have none: "toolMessages tc (messages (snapshot s)) = []"
    by (simp add: correlatedFor_def)
  have one: "invocationsOf tc ?m = [?ti]"
    by (simp add: invocationsOf_def)
  have tm: "toolMessages tc (messages (snapshot (handleToolEvent tc st ?u s))) = [?m]"
    unfolding handleToolEvent_new(1) [OF True] toolMessages_append none one by simp
  show ?thesis
    apply (rule exI [of _ ?m])
    apply (rule exI [of _ ?ti])
    using tm one by simp
next
  case False
  let ?u = "\<lparr>u_toolName = n, u_args = a, u_argsText = x, u_result = Some r\<rparr>"
  from False obtain mid where mid: "toolMessageMap s tc = Some mid" "mid \<noteq> []"
    by (cases "toolMessageMap s tc") auto
  from inv False mid obtain m ti where m: "toolMessages tc (messages (snapshot s)) = [m]"
    "idM m = mid" "invocationsOf tc m = [ti]"
    by (auto simp add: correlatedFor_def)
  let ?m = "updateMessage mid tc st ?u m"
  have tm: "toolMessages tc (messages (snapshot (handleToolEvent tc st ?u s))) = [?m]"
    unfolding handleToolEvent_seen(1) [OF mid] toolMessages_updateMessage m by simp
  have one: "invocationsOf tc ?m = [mergeInvocation ti ?u st]"
    by (simp add: invocationsOf_updateMessage m)
  show ?thesis
    apply (rule exI [of _ ?m])
    apply (rule exI [of _ "mergeInvocation ti ?u st"])
    using tm one by simp
qed

lemma correlatedFor_active [simp]:
  "correlatedFor tc (s\<lparr>activeScreenshotToolId := x\<rparr>) = correlatedFor tc s"
  by (simp add: correlatedFor_def)

lemma toolState_active [simp]:
  "toolState tc (s\<lparr>activeScreenshotToolId := x\<rparr>) = toolState tc s"
  by (simp add: toolState_def)

lemma correlated_after_line:
  assumes inv: "correlated s" and run: "processLine P l s = Normal s'"
  shows "correlatedFor tc s'"
proof -
  have all: "correlatedFor t s" for t
    using inv by (simp add: correlated_def)
  from run show ?thesis
  proof (cases rule: processLine_effect)
    case same
    then have "correlatedFor tc s' = correlatedFor tc s"
      by (intro correlatedFor_cong) simp_all
    with all [of tc] show ?thesis by simp
  next
    case (textDelta d)
    then have "correlatedFor tc s' = correlatedFor tc (handleTextDelta d s)"
      by (simp add: correlatedFor_def)
    with handleTextDelta_correlated [OF all [of tc], of d] show ?thesis by simp
  next
    case (toolInput t u)
    then have eq: "correlatedFor tc s' = correlatedFor tc (handleToolEvent t Call u s)"
      by (simp add: correlatedFor_def)
    show ?thesis
    proof (cases "tc = t")
      case True
      with handleToolEvent_correlated_same [OF all [of t], of Call u] eq show ?thesis by simp
    next
      case False
      with handleToolEvent_correlated_other [OF all [of tc], of t Call u] eq show ?thesis by simp
    qed
  next
    case (toolOutput t u)
    then have eq: "correlatedFor tc s' = correlatedFor tc (handleToolEvent t Result u s)"
      by (simp add: correlatedFor_def)
    show ?thesis
    proof (cases "tc = t")
      case True
      with handleToolEvent_correlated_same [OF all [of t], of Result u] eq show ?thesis by simp
    next
      case False
      with handleToolEvent_correlated_other [OF all [of tc], of t Result u] eq show ?thesis by simp
    qed
  next
    case (shot t u e)
    then have eq: "correlatedFor tc s' = correlatedFor tc (handleToolEvent t Result u s)"
      by (simp add: correlatedFor_def)
    show ?thesis
    proof (cases "tc = t")
      case True
      with handleToolEvent_correlated_same [OF all [of t], of Result u] eq show ?thesis by simp
    next
      case False
      with handleToolEvent_correlated_other [OF all [of tc], of t Result u] eq show ?thesis by simp
    qed
  qed
qed

lemma result_stays:
  assumes inv: "correlated s" and run: "processLine P l s = Normal s'"
    and res: "toolState tc s = [Result]" and other: "\<not> isToolEvent P l ''tool-input-available'' tc"
  shows "toolState tc s' = [Result]"
proof -
  have all: "correlatedFor t s" for t
    using inv by (simp add: correlated_def)
  from run show ?thesis
  proof (cases rule: processLine_effect)
    case same
    then show ?thesis using res by (simp add: toolState_def)
  next
    case (textDelta d)
    then have "toolState tc s' = toolState tc (handleTextDelta d s)"
      by (simp add: toolState_def)
    with handleTextDelta_correlated [OF all [of tc], of d] res show ?thesis by simp
  next
    case (toolInput t u)
    with other have "tc \<noteq> t" by auto
    moreover from toolInput have "toolState tc s' = toolState tc (handleToolEvent t Call u s)"
      by (simp add: toolState_def)
    ultimately show ?thesis
      using handleToolEvent_correlated_other [OF all [of tc], of t Call u] res by simp
  next
    case (toolOutput t u)
    then have eq: "toolState tc s' = toolState tc (handleToolEvent t Result u s)"
      by (simp add: toolState_def)
    show ?thesis
    proof (cases "tc = t")
      case True
      with handleToolEvent_correlated_same [OF all [of t], of Result u] eq show ?thesis by simp
    next
      case False
      with handleToolEvent_correlated_other [OF all [of tc], of t Result u] eq res show ?thesis by simp
    qed
  next
    case (shot t u e)
    then have eq: "toolState tc s' = toolState tc (handleToolEvent t Result u s)"
      by (simp add: toolState_def)
    show ?thesis
    proof (cases "tc = t")
      case True
      with handleToolEvent_correlated_same [OF all [of t], of Result u] eq show ?thesis by simp
    next
      case False
      with handleToolEvent_correlated_other [OF all [of tc], of t Result u] eq res show ?thesis by simp
    qed
  qed
qed

lemma state_after_tool_event:
  assumes inv: "correlated s" and run: "processLine P l s = Normal s'"
  shows "isToolEvent P l ''tool-input-available'' tc \<Longrightarrow> toolState tc s' = [Call]"
    and "isToolEvent P l ''tool-output-available'' tc \<Longrightarrow> toolState tc s' = [Result]"
proof -
  have all: "correlatedFor t s" for t
    using inv by (simp add: correlated_def)
  {
    assume "isToolEvent P l ''tool-input-available'' tc"
    then obtain e where e: "isEvent P l ''tool-input-available'' e"
      "getProp e (js ''toolCallId'') = Some (JStr tc)" "tc \<noteq> []"
      by (auto simp add: isToolEvent_def)
    from run processLine_tool_input [OF e, of s]
    obtain u where "toolState tc s' = toolState tc (handleToolEvent tc Call u s)"
      by (auto simp add: Let_def split: if_splits)
    with handleToolEvent_correlated_same [OF all [of tc], of Call u]
    show "toolState tc s' = [Call]" by simp
  }
  {
    assume "isToolEvent P l ''tool-output-available'' tc"
    then obtain e where e: "isEvent P l ''tool-output-available'' e"
      "getProp e (js ''toolCallId'') = Some (JStr tc)" "tc \<noteq> []"
      by (auto simp add: isToolEvent_def)
    from run processLine_tool_output [OF e, of s]
    obtain u where "toolState tc s' = toolState tc (handleToolEvent tc Result u s)"
      by (auto simp add: Let_def split: if_splits)
    with handleToolEvent_correlated_same [OF all [of tc], of Result u]
    show "toolState tc s' = [Result]" by simp
  }
qed

lemma correlated_newSession: "correlated (newSession cb dn mr)"
  by (simp add: correlated_def correlatedFor_def newSession_def toolMessages_def)

subsection \<open>The correlation holds in every session a caller can reach\<close>

lemma correlated_cong:
  assumes "toolMessageMap s' = toolMessageMap s" and "messages (snapshot s') = messages (snapshot s)"
  shows "correlated s' = correlated s"
  by (simp add: correlated_def correlatedFor_def assms)

lemma correlated_updateSnapshot:
  "p_messages p = None \<Longrightarrow> correlated (updateSnapshot p s) = correlated s"
  by (rule correlated_cong) simp_all

lemma correlated_store:
  "correlated (subscribe l s) = correlated s"
  "correlated (unsubscribe l s) = correlated s"
  "correlated (setInput v s) = correlated s"
  "correlated (setInitializing flag s) = correlated s"
  "correlated (updateDesktop url sb s) = correlated s"
  by (rule correlated_cong; simp add: subscribe_def unsubscribe_def setInput_def setInitializing_def
      updateDesktop_def noPatch_def)+

lemma correlated_stop: "correlated (stop s) = correlated s"
  by (rule correlated_cong) (simp_all add: stop_def abortCurrent_def noPatch_def split: option.splits)

lemma correlated_catchBlock:
  assumes "catchBlock e s = Normal s' \<or> catchBlock e s = Throws x s'"
  shows "correlated s' = correlated s"
proof (rule correlated_cong)
  from assms show "toolMessageMap s' = toolMessageMap s"
    by (auto simp add: catchBlock_def andThen_eq_Normal andThen_eq_Throws
        dest: callOnError_Normal callOnError_Throws split: if_splits)
  from assms show "messages (snapshot s') = messages (snapshot s)"
    by (auto simp add: catchBlock_def andThen_eq_Normal andThen_eq_Throws
        dest: callOnError_Normal callOnError_Throws split: if_splits)
qed

lemma correlated_startTurn:
  assumes "correlated s"
  shows "correlated (startTurn typed opts s)"
proof -
  let ?m = "\<lparr>idM = js ''user-'' @ dateNow s (nowReads s) @ js ''-'' @ mathRandom s (randomReads s),
             role = User, content = Some typed, parts = None\<rparr>"
  have ms: "messages (snapshot (startTurn typed opts s)) = messages (snapshot s) @ [?m]"
    by (simp add: startTurn_def Let_def abortCurrent_def merge_def noPatch_def split: option.splits)
  have mp: "toolMessageMap (startTurn typed opts s) = toolMessageMap s"
    by (simp add: startTurn_def Let_def abortCurrent_def split: option.splits)
  have none: "invocationsOf tc ?m = []" for tc
    by (simp add: invocationsOf_def)
  have "correlatedFor tc (startTurn typed opts s) = correlatedFor tc s" for tc
    unfolding correlatedFor_def ms mp toolMessages_append none by simp
  with assms show ?thesis by (simp add: correlated_def)
qed

lemma processLine_Throws:
  "processLine P l s = Throws e s' \<Longrightarrow>
   toolMessageMap s' = toolMessageMap s \<and> messages (snapshot s') = messages (snapshot s)"
  by (auto simp add: processLine_def Let_def andThen_eq_Throws dest: callOnError_Throws
      split: if_splits option.splits json.splits)

lemma correlated_line:
  assumes "correlated s" and "processLine P l s = Normal s'"
  shows "correlated s'"
  unfolding correlated_def using correlated_after_line [OF assms] by simp

lemma correlated_dispatchAll:
  assumes "correlated s"
  shows "dispatchAll (processLine P) ls s = Normal s' \<Longrightarrow> correlated s'"
    and "dispatchAll (processLine P) ls s = Throws e s' \<Longrightarrow> correlated s'"
  using assms
proof (induction ls arbitrary: s)
  case Nil
  { case 1 then show ?case by simp }
  { case 2 then show ?case by simp }
next
  case (Cons l ls)
  { case 1
    then show ?case
    proof (cases "processLine P l s")
      case (Normal s1)
      with 1 correlated_line [OF "1.prems"(2) Normal] Cons.IH(1) [of s1] show ?thesis by simp
    qed simp_all
  }
  { case 2
    then show ?case
    proof (cases "processLine P l s")
      case (Normal s1)
      with 2 correlated_line [OF "2.prems"(2) Normal] Cons.IH(2) [of s1] show ?thesis by simp
    next
      case (Throws e1 s1)
      from processLine_Throws [OF Throws] have "correlated s1 = correlated s"
        by (intro correlated_cong) simp_all
      with 2 Throws show ?thesis by simp
    qed simp
  }
qed

lemma correlated_readLoop:
  assumes "correlated s"
  shows "readLoop (processLine P) step chunks fin d [] s = Normal s' \<Longrightarrow> correlated s'"
    and "readLoop (processLine P) step chunks fin d [] s = Throws e s' \<Longrightarrow> correlated s'"
proof -
  let ?t = "decodeAll step d (concat chunks)"
  {
    assume run: "readLoop (processLine P) step chunks fin d [] s = Normal s'"
    show "correlated s'"
    proof (cases fin)
      case Done
      with run readLoop_Done [of "[]" "processLine P" step chunks d s]
      show ?thesis using correlated_dispatchAll(1) [OF assms] by simp
    next
      case (ReadRejects x)
      with run readLoop_Rejects [of "[]" "processLine P" step chunks x d s]
      show ?thesis
        by (cases "dispatchAll (processLine P) (terminatedLines ?t) s") simp_all
    qed
  }
  {
    assume run: "readLoop (processLine P) step chunks fin d [] s = Throws e s'"
    show "correlated s'"
    proof (cases fin)
      case Done
      with run readLoop_Done [of "[]" "processLine P" step chunks d s]
      show ?thesis using correlated_dispatchAll(2) [OF assms] by simp
    next
      case (ReadRejects x)
      with run readLoop_Rejects [of "[]" "processLine P" step chunks x d s]
      show ?thesis
        using correlated_dispatchAll [OF assms, of P "terminatedLines ?t"]
        by (cases "dispatchAll (processLine P) (terminatedLines ?t) s") simp_all
    qed
  }
qed

lemma correlated_afterFetch:
  assumes "correlated s"
  shows "afterFetch P step d0 answer s = Normal s' \<Longrightarrow> correlated s'"
    and "afterFetch P step d0 answer s = Throws e s' \<Longrightarrow> correlated s'"
proof -
  let ?s1 = "updateSnapshot (noPatch\<lparr>p_status := Some StreamingStatus\<rparr>) s"
  have c1: "correlated ?s1"
    using assms by (simp add: correlated_updateSnapshot noPatch_def)
  {
    assume run: "afterFetch P step d0 answer s = Normal s'"
    then obtain chunks fin s2 where r: "readLoop (processLine P) step chunks fin d0 [] ?s1 = Normal s2"
      and s': "s' = updateSnapshot (noPatch\<lparr>p_status := Some Ready\<rparr>) (s2\<lparr>abortController := None\<rparr>)"
      by (cases "readLoop (processLine P) step (fst (the (body (case answer of FetchResolves r \<Rightarrow> r))))
                   (snd (the (body (case answer of FetchResolves r \<Rightarrow> r)))) d0 [] ?s1")
         (auto simp add: afterFetch_def split: fetchResult.splits if_splits option.splits prod.splits)
    from correlated_readLoop(1) [OF c1 r] have "correlated s2" .
    moreover have "correlated s' = correlated s2"
      unfolding s' by (rule correlated_cong) (simp_all add: noPatch_def)
    ultimately show "correlated s'" by simp
  }
  {
    assume run: "afterFetch P step d0 answer s = Throws e s'"
    then have "s' = s \<or> (\<exists>chunks fin. readLoop (processLine P) step chunks fin d0 [] ?s1 = Throws e s')"
      by (cases "readLoop (processLine P) step (fst (the (body (case answer of FetchResolves r \<Rightarrow> r))))
                   (snd (the (body (case answer of FetchResolves r \<Rightarrow> r)))) d0 [] ?s1")
         (auto simp add: afterFetch_def split: fetchResult.splits if_splits option.splits prod.splits)
    then show "correlated s'"
      using assms correlated_readLoop(2) [OF c1] by auto
  }
qed

lemma correlated_sendMessage:
  assumes "correlated s"
    and "sendMessage P step d0 typed opts answer s = Normal s' \<or>
         sendMessage P step d0 typed opts answer s = Throws x s'"
  shows "correlated s'"
proof (cases "trim typed = [] \<or> status (snapshot s) = StreamingStatus \<or>
    status (snapshot s) = Submitted \<or> isInitializing (snapshot s)")
  case True
  with assms(2) have "s' = s" by (auto simp add: sendMessage_def Let_def split: if_splits)
  with assms(1) show ?thesis by simp
next
  case False
  let ?s0 = "startTurn (trim typed) opts s"
  have c0: "correlated ?s0" by (rule correlated_startTurn) (rule assms)
  show ?thesis
  proof (cases "afterFetch P step d0 answer ?s0")
    case (Normal s1)
    with False assms(2) have "s' = s1" by (auto simp add: sendMessage_def Let_def)
    with correlated_afterFetch(1) [OF c0 Normal] show ?thesis by simp
  next
    case (Throws e s1)
    with False assms(2) have "catchBlock e s1 = Normal s' \<or> catchBlock e s1 = Throws x s'"
      by (auto simp add: sendMessage_def Let_def)
    from correlated_catchBlock [OF this] correlated_afterFetch(2) [OF c0 Throws]
    show ?thesis by simp
  next
    case IllTyped
    with False assms(2) show ?thesis by (auto simp add: sendMessage_def Let_def)
  qed
qed

lemma reachable_correlated: "reachable P step d0 s \<Longrightarrow> correlated s"
proof (induction rule: reachable.induct)
  case (constructed cb dn mr)
  show ?case by (rule correlated_newSession)
next
  case (sent s typed opts answer s')
  show ?case by (rule correlated_sendMessage [OF sent.IH disjI1 [OF sent.hyps(2)]])
next
  case (sentThrown s typed opts answer e s')
  show ?case by (rule correlated_sendMessage [OF sentThrown.IH disjI2 [OF sentThrown.hyps(2)]])
qed (simp_all add: correlated_store correlated_stop)

lemma isEvent_input_a:
  \<open>isEvent refPlatform (js ''{"type":"tool-input-available","toolCallId":"a","toolName":"x","input":{}}'')
     ''tool-input-available''
     (JObj [(js ''type'', JStr (js ''tool-input-available'')), (js ''toolCallId'', JStr (js ''a'')),
            (js ''toolName'', JStr (js ''x'')), (js ''input'', JObj [])])\<close>
  by (simp add: isEvent_def readJson_simps)

lemma isEvent_output_a:
  \<open>isEvent refPlatform (js ''{"type":"tool-output-available","toolCallId":"a","output":{"ok":true}}'')
     ''tool-output-available''
     (JObj [(js ''type'', JStr (js ''tool-output-available'')), (js ''toolCallId'', JStr (js ''a'')),
            (js ''output'', JObj [(js ''ok'', JBool True)])])\<close>
  by (simp add: isEvent_def readJson_simps)

lemma isToolEvent_input_a:
  \<open>isToolEvent refPlatform
     (js ''{"type":"tool-input-available","toolCallId":"a","toolName":"x","input":{}}'')
     ''tool-input-available'' (js ''a'')\<close>
  unfolding isToolEvent_def using isEvent_input_a by (auto simp add: js_def)

lemma isToolEvent_output_a:
  \<open>isToolEvent refPlatform
     (js ''{"type":"tool-output-available","toolCallId":"a","output":{"ok":true}}'')
     ''tool-output-available'' (js ''a'')\<close>
  unfolding isToolEvent_def using isEvent_output_a by (auto simp add: js_def)

lemma correlated_readySession: "correlated readySession"
  by (simp add: readySession_def demoSession_def correlated_store correlated_newSession)

lemma tool_event_returns:
  assumes "correlated s"
  shows "isToolEvent P l ''tool-input-available'' tc \<Longrightarrow>
           \<exists>s'. processLine P l s = Normal s' \<and> correlated s' \<and> toolState tc s' = [Call]"
    and "isToolEvent P l ''tool-output-available'' tc \<Longrightarrow>
           \<exists>s'. processLine P l s = Normal s' \<and> correlated s' \<and> toolState tc s' = [Result]"
proof -
  {
    assume ev: "isToolEvent P l ''tool-input-available'' tc"
    then obtain e where e: "isEvent P l ''tool-input-available'' e"
      "getProp e (js ''toolCallId'') = Some (JStr tc)" "tc \<noteq> []"
      by (auto simp add: isToolEvent_def)
    from processLine_tool_input [OF e, of s] obtain s' where run: "processLine P l s = Normal s'"
      by simp
    with correlated_line [OF assms run] state_after_tool_event(1) [OF assms run ev]
    show "\<exists>s'. processLine P l s = Normal s' \<and> correlated s' \<and> toolState tc s' = [Call]"
      by simp
  }
  {
    assume ev: "isToolEvent P l ''tool-output-available'' tc"
    then obtain e where e: "isEvent P l ''tool-output-available'' e"
      "getProp e (js ''toolCallId'') = Some (JStr tc)" "tc \<noteq> []"
      by (auto simp add: isToolEvent_def)
    from processLine_tool_output [OF e, of s] obtain s' where run: "processLine P l s = Normal s'"
      by simp
    with correlated_line [OF assms run] state_after_tool_event(2) [OF assms run ev]
    show "\<exists>s'. processLine P l s = Normal s' \<and> correlated s' \<and> toolState tc s' = [Result]"
      by simp
  }
qed

subsection \<open>A call and its result\<close>

text \<open>
  C2. In a correlated session (every reachable one is), a \<open>tool-input-available\<close> event
  for a \<open>toolCallId\<close> followed by a \<open>tool-output-available\<close> event for the same
  \<open>toolCallId\<close> with the output \<open>r\<close> leaves exactly one message with an invocation for
  that \<open>toolCallId\<close> in the transcript; it has one such invocation, whose state is
  \<open>result\<close> and whose result is \<open>r\<close>. No second message is made for it.
\<close>

theorem tool_call_then_result:
  assumes inv: "correlated s"
    and call: "isEvent P l1 ''tool-input-available'' e1" "getProp e1 (js ''toolCallId'') = Some (JStr tc)"
    and ret: "isEvent P l2 ''tool-output-available'' e2" "getProp e2 (js ''toolCallId'') = Some (JStr tc)"
    and out: "getProp e2 (js ''output'') = Some r"
    and ne: "tc \<noteq> []"
  shows "\<exists>s' m ti. dispatchAll (processLine P) [l1, l2] s = Normal s' \<and>
           toolMessages tc (messages (snapshot s')) = [m] \<and> invocationsOf tc m = [ti] \<and>
           state ti = Result \<and> result ti = Some r"
proof -
  obtain s1 where p1: "processLine P l1 s = Normal s1"
    using processLine_tool_input [OF call ne, of s] by simp
  from correlated_after_line [OF inv p1] have inv1: "correlatedFor tc s1" .
  let ?u = "\<lparr>u_toolName = None, u_args = None, u_argsText = None, u_result = Some (Some r)\<rparr>"
  let ?s2 = "handleToolEvent tc Result ?u s1"
  from processLine_tool_output [OF ret ne, of s1] out
  obtain s' where p2: "processLine P l2 s1 = Normal s'"
    and ms: "messages (snapshot s') = messages (snapshot ?s2)"
    by (auto simp add: Let_def split: if_splits)
  from handleToolEvent_result [OF inv1, of Result None None None "Some r"]
  obtain m ti where "toolMessages tc (messages (snapshot ?s2)) = [m]" "invocationsOf tc m = [ti]"
    "state ti = Result" "result ti = Some r"
    by auto
  with p1 p2 ms show ?thesis by simp
qed

text \<open>The two events of the specification: the \<open>toolCallId\<close> \<open>a\<close>, the output \<open>{"ok":true}\<close>.\<close>

theorem tool_call_then_result_witness:
  \<open>\<exists>s' m ti. dispatchAll (processLine refPlatform)
          [js ''{"type":"tool-input-available","toolCallId":"a","toolName":"x","input":{}}'',
           js ''{"type":"tool-output-available","toolCallId":"a","output":{"ok":true}}'']
          readySession = Normal s' \<and>
        toolMessages (js ''a'') (messages (snapshot s')) = [m] \<and> invocationsOf (js ''a'') m = [ti] \<and>
        state ti = Result \<and> result ti = Some (JObj [(js ''ok'', JBool True)])\<close>
  by (rule tool_call_then_result [OF correlated_readySession isEvent_input_a _ isEvent_output_a])
     (simp_all add: js_def)

subsection \<open>The state of an invocation\<close>

text \<open>
  C3, as the code has it. In a correlated session, a line that returns leaves the
  session correlated, and for every \<open>toolCallId\<close>: a \<open>tool-input-available\<close> event for it
  leaves its invocation in state \<open>call\<close> and a \<open>tool-output-available\<close> event for it in
  state \<open>result\<close>, whether the event made the invocation or found it, whatever its
  state was; its state is never \<open>streaming\<close>; and a state \<open>result\<close> stays unless the line is a
  \<open>tool-input-available\<close> event for the same \<open>toolCallId\<close>.
\<close>

theorem tool_state_follows_events:
  assumes "correlated s" and "processLine P l s = Normal s'"
  shows "correlated s' \<and>
    (isToolEvent P l ''tool-input-available'' tc \<longrightarrow> toolState tc s' = [Call]) \<and>
    (isToolEvent P l ''tool-output-available'' tc \<longrightarrow> toolState tc s' = [Result]) \<and>
    Streaming \<notin> set (toolState tc s') \<and>
    (toolState tc s = [Result] \<and> \<not> isToolEvent P l ''tool-input-available'' tc \<longrightarrow>
       toolState tc s' = [Result])"
proof -
  have c: "correlated s'"
    unfolding correlated_def using correlated_after_line [OF assms] by simp
  then have "correlatedFor tc s'" by (simp add: correlated_def)
  from correlatedFor_state [OF this] have "Streaming \<notin> set (toolState tc s')" by auto
  with c state_after_tool_event [OF assms, of tc] result_stays [OF assms, of tc]
  show ?thesis by simp
qed

text \<open>The first event for \<open>a\<close>, a \<open>tool-input-available\<close>, on a session with no tool call.\<close>

theorem tool_state_follows_events_witness:
  \<open>\<exists>s'. processLine refPlatform
          (js ''{"type":"tool-input-available","toolCallId":"a","toolName":"x","input":{}}'')
          readySession = Normal s' \<and>
        correlated s' \<and> toolState (js ''a'') s' = [Call] \<and> Streaming \<notin> set (toolState (js ''a'') s')\<close>
proof -
  from tool_event_returns(1) [OF correlated_readySession isToolEvent_input_a]
  obtain s' where run: \<open>processLine refPlatform
          (js ''{"type":"tool-input-available","toolCallId":"a","toolName":"x","input":{}}'')
          readySession = Normal s'\<close>
    by auto
  from tool_state_follows_events [OF correlated_readySession run, of "js ''a''"] isToolEvent_input_a run
  show ?thesis by simp
qed

text \<open>
  C3 as it is stated fails. An invocation whose first event is a \<open>tool-output-available\<close>
  is made in state \<open>result\<close>, not \<open>call\<close>; and after the events input, output for \<open>a\<close> the
  state is \<open>result\<close>, and a further \<open>tool-input-available\<close> event for \<open>a\<close> sets it back to
  \<open>call\<close>.
\<close>

theorem tool_state_regresses:
  \<open>toolStateAfter refPlatform
      [js ''{"type":"tool-output-available","toolCallId":"a","output":{"ok":true}}'']
      (js ''a'') readySession = Some [Result] \<and>
    toolStateAfter refPlatform
      [js ''{"type":"tool-input-available","toolCallId":"a","toolName":"x","input":{}}'',
       js ''{"type":"tool-output-available","toolCallId":"a","output":{"ok":true}}'']
      (js ''a'') readySession = Some [Result] \<and>
    toolStateAfter refPlatform
      [js ''{"type":"tool-input-available","toolCallId":"a","toolName":"x","input":{}}'',
       js ''{"type":"tool-output-available","toolCallId":"a","output":{"ok":true}}'',
       js ''{"type":"tool-input-available","toolCallId":"a","toolName":"x","input":{}}'']
      (js ''a'') readySession = Some [Call]\<close>
proof -
  note i = isToolEvent_input_a and o = isToolEvent_output_a
  from tool_event_returns(2) [OF correlated_readySession o]
  obtain r1 where r1: \<open>processLine refPlatform
      (js ''{"type":"tool-output-available","toolCallId":"a","output":{"ok":true}}'') readySession = Normal r1\<close>
    "toolState (js ''a'') r1 = [Result]"
    by auto
  from tool_event_returns(1) [OF correlated_readySession i]
  obtain s1 where s1: \<open>processLine refPlatform
      (js ''{"type":"tool-input-available","toolCallId":"a","toolName":"x","input":{}}'') readySession = Normal s1\<close>
    "correlated s1"
    by auto
  from tool_event_returns(2) [OF s1(2) o]
  obtain s2 where s2: \<open>processLine refPlatform
      (js ''{"type":"tool-output-available","toolCallId":"a","output":{"ok":true}}'') s1 = Normal s2\<close>
    "correlated s2" "toolState (js ''a'') s2 = [Result]"
    by auto
  from tool_event_returns(1) [OF s2(2) i]
  obtain s3 where s3: \<open>processLine refPlatform
      (js ''{"type":"tool-input-available","toolCallId":"a","toolName":"x","input":{}}'') s2 = Normal s3\<close>
    "toolState (js ''a'') s3 = [Call]"
    by auto
  show ?thesis
    by (simp add: toolStateAfter_def r1 s1 s2 s3)
qed

section \<open>Sending a message\<close>

text \<open>
  C6. \<open>sendMessage\<close> changes nothing when the input trims to the empty string, or the
  status is \<open>submitted\<close> or \<open>streaming\<close>, or \<open>isInitializing\<close> is true: whatever the
  transport would answer, it returns the session as it was (the snapshot is the same
  and no listener is called).
\<close>

theorem sendMessage_noop:
  assumes "trim text = [] \<or> status (snapshot s) = Submitted \<or>
           status (snapshot s) = StreamingStatus \<or> isInitializing (snapshot s)"
  shows "sendMessage P step d0 text opts answer s = Normal s"
  using assms by (auto simp add: sendMessage_def Let_def)

text \<open>A session that is still initializing, and a blank input on one that is not.\<close>

theorem sendMessage_noop_witness:
  "sendMessage refPlatform utf8Step utf8Start (js ''hello'') None (FetchRejects AbortError) demoSession =
     Normal demoSession \<and>
   sendMessage refPlatform utf8Step utf8Start (js ''  '') None (FetchRejects AbortError)
     (setInitializing False demoSession) = Normal (setInitializing False demoSession)"
proof
  show "sendMessage refPlatform utf8Step utf8Start (js ''hello'') None (FetchRejects AbortError) demoSession =
     Normal demoSession"
    by (rule sendMessage_noop) (simp add: demoSession_def newSession_def subscribe_def)
  show "sendMessage refPlatform utf8Step utf8Start (js ''  '') None (FetchRejects AbortError)
     (setInitializing False demoSession) = Normal (setInitializing False demoSession)"
    by (rule sendMessage_noop) (simp add: trim_def isWhiteSpace_def js_def)
qed

text \<open>
  C5. For an input whose trimmed form is not empty, \<open>sendMessage\<close> called while the
  status is \<open>ready\<close> and \<open>isInitializing\<close> is false passes its guards; when it suspends
  for the transport (\<open>startTurn\<close>), the messages are the ones before followed by one user
  message whose content is the trimmed text, and the status is \<open>submitted\<close>.
\<close>

theorem sendMessage_appends_user_message:
  assumes "trim text \<noteq> []" and "status (snapshot s) = Ready" and "\<not> isInitializing (snapshot s)"
  shows "sendMessage P step d0 text opts answer s =
           (case afterFetch P step d0 answer (startTurn (trim text) opts s) of
              Normal s1 \<Rightarrow> Normal s1
            | Throws e s1 \<Rightarrow> catchBlock e s1
            | IllTyped \<Rightarrow> IllTyped) \<and>
         messages (snapshot (startTurn (trim text) opts s)) =
           messages (snapshot s) @
             [\<lparr>idM = js ''user-'' @ dateNow s (nowReads s) @ js ''-'' @ mathRandom s (randomReads s),
               role = User, content = Some (trim text), parts = None\<rparr>] \<and>
         status (snapshot (startTurn (trim text) opts s)) = Submitted"
  using assms
  by (simp add: sendMessage_def startTurn_def Let_def abortCurrent_def merge_def noPatch_def
      split: option.splits)

text \<open>The input \<open>hi\<close> between blanks, with a transport that rejects at once.\<close>

theorem sendMessage_appends_user_message_witness:
  "sendMessage refPlatform utf8Step utf8Start (js '' hi '') None (FetchRejects AbortError) readySession =
     catchBlock AbortError (startTurn (js ''hi'') None readySession) \<and>
   messages (snapshot (startTurn (js ''hi'') None readySession)) =
     [\<lparr>idM = js ''user-1700000000000-0.1'', role = User, content = Some (js ''hi''), parts = None\<rparr>] \<and>
   status (snapshot (startTurn (js ''hi'') None readySession)) = Submitted"
proof -
  have t: "trim (js '' hi '') = js ''hi''"
    by (simp add: trim_def isWhiteSpace_def js_def)
  have i: "js ''user-'' @ dateNow readySession (nowReads readySession) @ js ''-'' @
     mathRandom readySession (randomReads readySession) = js ''user-1700000000000-0.1''"
    by (simp add: session_simps writeNat.simps js_def)
  have g: "trim (js '' hi '') \<noteq> []" "status (snapshot readySession) = Ready"
      "\<not> isInitializing (snapshot readySession)" "messages (snapshot readySession) = []"
    by (simp_all add: t) (simp_all add: session_simps js_def)
  from sendMessage_appends_user_message [OF g(1,2,3), of refPlatform utf8Step utf8Start None "FetchRejects AbortError"]
  show ?thesis
    unfolding t i g(4) by (simp add: afterFetch_def)
qed




end
